theory Spec2Isabelle
  imports Main "HOL-Library.Sublist"
begin

section \<open>JavaScript strings and values\<close>

text \<open>
  A JavaScript string is a sequence of UTF-16 code units. Every character the program
  tests for lies in the Basic Multilingual Plane, so each is one code unit; a code unit is
  modelled by its numeric value (what \<^verbatim>\<open>charCodeAt\<close> returns). The regular
  expressions of the source carry no \<^verbatim>\<open>u\<close> flag, so they too work on code units.
\<close>

type_synonym codeunit = nat
type_synonym jstring = "codeunit list"

text \<open>ASCII literals, for writing concrete inputs.\<close>

definition js :: "string \<Rightarrow> jstring" where
  "js s = map of_char s"

text \<open>
  The values a caller can pass where a string is expected. Numbers are kept as integers
  (only their truthiness and their \<^verbatim>\<open>typeof\<close> are ever inspected).
\<close>

datatype jsvalue =
    JUndefined
  | JNull
  | JBoolean bool
  | JNumber int
  | JString jstring
  | JObject

datatype jstype = TUndefined | TObject | TBoolean | TNumber | TString

fun typeof :: "jsvalue \<Rightarrow> jstype" where
  "typeof JUndefined = TUndefined"
| "typeof JNull = TObject"
| "typeof (JBoolean b) = TBoolean"
| "typeof (JNumber n) = TNumber"
| "typeof (JString s) = TString"
| "typeof JObject = TObject"

text \<open>\<^verbatim>\<open>!v\<close>: the value is falsy.\<close>

fun falsy :: "jsvalue \<Rightarrow> bool" where
  "falsy JUndefined = True"
| "falsy JNull = True"
| "falsy (JBoolean b) = (\<not> b)"
| "falsy (JNumber n) = (n = 0)"
| "falsy (JString s) = (s = [])"
| "falsy JObject = False"

subsection \<open>Character classes\<close>

text \<open>
  \<^verbatim>\<open>\s\<close> in a regular expression, and the characters removed by
  \<^verbatim>\<open>trim\<close> and \<^verbatim>\<open>trimStart\<close>: ECMAScript WhiteSpace and LineTerminator.
\<close>

definition isWhiteSpace :: "codeunit \<Rightarrow> bool" where
  "isWhiteSpace c \<longleftrightarrow>
     c = 0x09 \<or> c = 0x0A \<or> c = 0x0B \<or> c = 0x0C \<or> c = 0x0D \<or> c = 0x20 \<or> c = 0xA0 \<or>
     c = 0x1680 \<or> (0x2000 \<le> c \<and> c \<le> 0x200A) \<or> c = 0x2028 \<or> c = 0x2029 \<or>
     c = 0x202F \<or> c = 0x205F \<or> c = 0x3000 \<or> c = 0xFEFF"

text \<open>\<^verbatim>\<open>\d\<close> and \<^verbatim>\<open>[0-9]\<close>.\<close>

definition isDigit :: "codeunit \<Rightarrow> bool" where
  "isDigit c \<longleftrightarrow> 0x30 \<le> c \<and> c \<le> 0x39"

text \<open>\<^verbatim>\<open>[a-z]\<close>.\<close>

definition isLower :: "codeunit \<Rightarrow> bool" where
  "isLower c \<longleftrightarrow> 0x61 \<le> c \<and> c \<le> 0x7A"

text \<open>
  \<^verbatim>\<open>[a-zA-Z]\<close>; also what \<^verbatim>\<open>[a-z]\<close> matches under the \<^verbatim>\<open>i\<close> flag
  (without the \<^verbatim>\<open>u\<close> flag no code unit above 127 is folded onto an ASCII letter).
\<close>

definition isLetter :: "codeunit \<Rightarrow> bool" where
  "isLetter c \<longleftrightarrow> isLower c \<or> (0x41 \<le> c \<and> c \<le> 0x5A)"

text \<open>The Devanagari digits U+0966 .. U+096F.\<close>

definition isDevanagariDigit :: "codeunit \<Rightarrow> bool" where
  "isDevanagariDigit c \<longleftrightarrow> 0x966 \<le> c \<and> c \<le> 0x96F"

text \<open>The Devanagari consonant range U+0915 (ka) .. U+092F (ya) of the patterns.\<close>

definition isDevanagariLetter :: "codeunit \<Rightarrow> bool" where
  "isDevanagariLetter c \<longleftrightarrow> 0x915 \<le> c \<and> c \<le> 0x92F"

text \<open>The Devanagari block U+0900 .. U+097F.\<close>

definition isDevanagari :: "codeunit \<Rightarrow> bool" where
  "isDevanagari c \<longleftrightarrow> 0x900 \<le> c \<and> c \<le> 0x97F"

text \<open>
  The twelve amendment symbols, in the order of the source array: U+2611, the asterisk,
  dagger, double dagger, section sign, pilcrow, bullet, black diamond, black square, black
  small square, black up-pointing triangle, black right-pointing pointer.
\<close>

definition amendmentSymbols :: "codeunit list" where
  "amendmentSymbols =
     [0x2611, 0x2A, 0x2020, 0x2021, 0xA7, 0xB6, 0x2022, 0x25C6, 0x25A0, 0x25AA, 0x25B2, 0x25BA]"

definition isAmendmentSymbol :: "codeunit \<Rightarrow> bool" where
  "isAmendmentSymbol c \<longleftrightarrow> c \<in> set amendmentSymbols"

abbreviation (input) FULL_STOP :: codeunit where "FULL_STOP \<equiv> 0x2E"
abbreviation (input) COLON :: codeunit where "COLON \<equiv> 0x3A"
abbreviation (input) LPAREN :: codeunit where "LPAREN \<equiv> 0x28"
abbreviation (input) RPAREN :: codeunit where "RPAREN \<equiv> 0x29"
abbreviation (input) LF :: codeunit where "LF \<equiv> 0x0A"
abbreviation (input) CR :: codeunit where "CR \<equiv> 0x0D"
abbreviation (input) SPACE :: codeunit where "SPACE \<equiv> 0x20"

subsection \<open>String methods\<close>

definition trimStart :: "jstring \<Rightarrow> jstring" where
  "trimStart s = dropWhile isWhiteSpace s"

definition trimEnd :: "jstring \<Rightarrow> jstring" where
  "trimEnd s = rev (dropWhile isWhiteSpace (rev s))"

definition trim :: "jstring \<Rightarrow> jstring" where
  "trim s = trimEnd (trimStart s)"

text \<open>\<^verbatim>\<open>s.indexOf(c)\<close> for a one-character needle; \<open>None\<close> stands for -1.\<close>

fun indexOf :: "codeunit \<Rightarrow> jstring \<Rightarrow> nat option" where
  "indexOf c [] = None"
| "indexOf c (x # xs) = (if x = c then Some 0 else map_option Suc (indexOf c xs))"

text \<open>\<^verbatim>\<open>s.substring(i)\<close> and \<^verbatim>\<open>s.substring(0, j)\<close>.\<close>

definition substringFrom :: "nat \<Rightarrow> jstring \<Rightarrow> jstring" where
  "substringFrom i s = drop i s"

definition substringTo :: "nat \<Rightarrow> jstring \<Rightarrow> jstring" where
  "substringTo j s = take j s"

text \<open>\<^verbatim>\<open>s.endsWith(':')\<close>\<close>

definition endsWithColon :: "jstring \<Rightarrow> bool" where
  "endsWithColon s \<longleftrightarrow> s \<noteq> [] \<and> last s = COLON"

text \<open>
  \<^verbatim>\<open>s.split('\n')\<close>: the pieces between line feeds; the empty string gives one empty
  piece.
\<close>

fun split_lines :: "jstring \<Rightarrow> jstring list" where
  "split_lines [] = [[]]"
| "split_lines (c # cs) =
     (if c = LF then [] # split_lines cs
      else (case split_lines cs of
              [] \<Rightarrow> [[c]]
            | l # ls \<Rightarrow> (c # l) # ls))"

section \<open>ClauseNumberDetector\<close>

text \<open>
  The patterns are anchored at the start and built from pairwise disjoint character
  classes, so the backtracking matcher has one way through them at most: each optional
  class takes its character when it is there, each repetition takes the whole run.

  \<open>numeralPattern digit letter\<close> is
  \<^verbatim>\<open>^[symbols]?\s*(digit+(?:letter)?)\s*\.\<close>; it gives the matched text (group 0)
  and the numeral (group 1).
\<close>

definition optClass :: "(codeunit \<Rightarrow> bool) \<Rightarrow> jstring \<Rightarrow> jstring \<times> jstring" where
  "optClass P s = (case s of [] \<Rightarrow> ([], []) | c # cs \<Rightarrow> if P c then ([c], cs) else ([], s))"

definition numeralPattern ::
  "(codeunit \<Rightarrow> bool) \<Rightarrow> (codeunit \<Rightarrow> bool) \<Rightarrow> jstring \<Rightarrow> (jstring \<times> jstring) option" where
  "numeralPattern digit letter s =
     (let (sym, r1) = optClass isAmendmentSymbol s;
          ws1 = takeWhile isWhiteSpace r1; r2 = dropWhile isWhiteSpace r1;
          ds = takeWhile digit r2; r3 = dropWhile digit r2
      in if ds = [] then None
         else
           let (lt, r4) = optClass letter r3;
               ws2 = takeWhile isWhiteSpace r4; r5 = dropWhile isWhiteSpace r4
           in (case r5 of
                 [] \<Rightarrow> None
               | c # rest \<Rightarrow>
                   if c = FULL_STOP then Some (sym @ ws1 @ ds @ lt @ ws2 @ [c], ds @ lt)
                   else None))"

text \<open>The English pattern has the \<^verbatim>\<open>i\<close> flag, the Devanagari one has not.\<close>

definition englishNumeralPattern :: "jstring \<Rightarrow> (jstring \<times> jstring) option" where
  "englishNumeralPattern = numeralPattern isDigit isLetter"

definition devanagariNumeralPattern :: "jstring \<Rightarrow> (jstring \<times> jstring) option" where
  "devanagariNumeralPattern = numeralPattern isDevanagariDigit isDevanagariLetter"

text \<open>\<^verbatim>\<open>[0-9a-zA-Z<ka>-<ya><0>-<9>]\<close> of the sub-clause pattern.\<close>

definition isSubClauseChar :: "codeunit \<Rightarrow> bool" where
  "isSubClauseChar c \<longleftrightarrow> isDigit c \<or> isLetter c \<or> isDevanagariLetter c \<or> isDevanagariDigit c"

text \<open>\<^verbatim>\<open>subClausePattern.test(s)\<close> with the pattern \<^verbatim>\<open>^\s*\([...]+\)\<close>.\<close>

definition subClausePattern :: "jstring \<Rightarrow> bool" where
  "subClausePattern s =
     (case dropWhile isWhiteSpace s of
        [] \<Rightarrow> False
      | c # r \<Rightarrow>
          c = LPAREN \<and> takeWhile isSubClauseChar r \<noteq> [] \<and>
          (case dropWhile isSubClauseChar r of [] \<Rightarrow> False | d # rest \<Rightarrow> d = RPAREN))"

datatype language_tag = Unknown | Mixed | Devanagari | English | Other

record clause =
  c_fullClause :: jstring
  c_baseNumber :: jstring
  c_amendment :: "codeunit option"
  c_language :: language_tag
  c_hasAlpha :: bool

definition extractAmendmentSymbol :: "jstring \<Rightarrow> codeunit option" where
  "extractAmendmentSymbol txt =
     (case trimStart txt of
        [] \<Rightarrow> None
      | firstChar # rest \<Rightarrow> if firstChar \<in> set amendmentSymbols then Some firstChar else None)"

text \<open>
  \<^verbatim>\<open>DevanagariParser.isAlphaNumeric\<close>: the last character of the numeral is a key of
  the letter table, which holds the 26 consonants of the range without U+0929.
\<close>

definition devanagariLetters :: "codeunit list" where
  "devanagariLetters =
     [0x915, 0x916, 0x917, 0x918, 0x919, 0x91A, 0x91B, 0x91C, 0x91D, 0x91E, 0x91F, 0x920,
      0x921, 0x922, 0x923, 0x924, 0x925, 0x926, 0x927, 0x928, 0x92A, 0x92B, 0x92C, 0x92D,
      0x92E, 0x92F]"

definition isAlphaNumeric :: "jstring \<Rightarrow> bool" where
  "isAlphaNumeric nm \<longleftrightarrow> nm \<noteq> [] \<and> last nm \<in> set devanagariLetters"

definition detectClauseNumber :: "jstring \<Rightarrow> clause option" where
  "detectClauseNumber line =
     (if line = [] \<or> trim line = [] then None
      else
        let trimmedLine = trimStart line
        in if subClausePattern trimmedLine then None
           else (case englishNumeralPattern trimmedLine of
                   Some (m0, m1) \<Rightarrow>
                     Some \<lparr> c_fullClause = trim m0, c_baseNumber = m1,
                            c_amendment = extractAmendmentSymbol trimmedLine,
                            c_language = English, c_hasAlpha = (\<exists>c \<in> set m1. isLetter c) \<rparr>
                 | None \<Rightarrow>
                     (case devanagariNumeralPattern trimmedLine of
                        Some (m0, m1) \<Rightarrow>
                          Some \<lparr> c_fullClause = trim m0, c_baseNumber = m1,
                                 c_amendment = extractAmendmentSymbol trimmedLine,
                                 c_language = Devanagari, c_hasAlpha = isAlphaNumeric m1 \<rparr>
                      | None \<Rightarrow> None)))"

definition hasClauseNumber :: "jstring \<Rightarrow> bool" where
  "hasClauseNumber line \<longleftrightarrow> detectClauseNumber line \<noteq> None"

text \<open>
  The row text of the clause number: the amendment symbol, when there is one, put in front
  of \<open>fullClause\<close>.
\<close>

definition getClauseNumberRow :: "jstring \<Rightarrow> jstring option" where
  "getClauseNumberRow line =
     (case detectClauseNumber line of
        None \<Rightarrow> None
      | Some detected \<Rightarrow>
          (case c_amendment detected of
             Some a \<Rightarrow> Some (a # c_fullClause detected)
           | None \<Rightarrow> Some (c_fullClause detected)))"

definition getRemainder :: "jstring \<Rightarrow> jstring option" where
  "getRemainder line =
     (case detectClauseNumber line of
        None \<Rightarrow> None
      | Some detected \<Rightarrow>
          let trimmed = trimStart line
          in (case indexOf FULL_STOP trimmed of
                Some dotIndex \<Rightarrow>
                  let remainder = trimStart (substringFrom (dotIndex + 1) trimmed)
                  in if remainder = [] then None else Some remainder
              | None \<Rightarrow> None))"

definition isSubClause :: "jstring \<Rightarrow> bool" where
  "isSubClause line \<longleftrightarrow> subClausePattern (trimStart line)"

section \<open>LeadingPhraseDetector\<close>

record leading_phrase =
  lp_phrase :: jstring
  lp_content :: "jstring option"
  lp_hasContent :: bool

text \<open>
  The second parameter is the remainder as \<open>getRemainder\<close> gives it; \<open>None\<close> and the
  empty string are both falsy.
\<close>

definition detectLeadingPhrase :: "jstring \<Rightarrow> jstring option \<Rightarrow> leading_phrase option" where
  "detectLeadingPhrase line remainder =
     (case remainder of
        None \<Rightarrow> None
      | Some r \<Rightarrow>
          if r = [] then None
          else (case indexOf COLON r of
                  None \<Rightarrow> None
                | Some colonIndex \<Rightarrow>
                    let leadingPhraseRaw = trim (substringTo colonIndex r)
                    in if leadingPhraseRaw = [] then None
                       else
                         let contentAfterColon = trim (substringFrom (colonIndex + 1) r)
                         in Some \<lparr> lp_phrase = leadingPhraseRaw @ [COLON],
                                   lp_content = (if contentAfterColon = [] then None
                                                 else Some contentAfterColon),
                                   lp_hasContent = (length contentAfterColon > 0) \<rparr>))"

definition hasLeadingPhrase :: "jstring \<Rightarrow> bool" where
  "hasLeadingPhrase line =
     (case detectClauseNumber line of
        None \<Rightarrow> False
      | Some clauseDetected \<Rightarrow>
          (case getRemainder line of
             None \<Rightarrow> False
           | Some remainder \<Rightarrow> detectLeadingPhrase line (Some remainder) \<noteq> None))"

definition getLeadingPhrase :: "jstring \<Rightarrow> jstring option" where
  "getLeadingPhrase line =
     (case detectClauseNumber line of
        None \<Rightarrow> None
      | Some clauseDetected \<Rightarrow>
          (case getRemainder line of
             None \<Rightarrow> None
           | Some remainder \<Rightarrow>
               (case detectLeadingPhrase line (Some remainder) of
                  None \<Rightarrow> None
                | Some detected \<Rightarrow> Some (lp_phrase detected))))"

definition getContentAfterPhrase :: "jstring \<Rightarrow> jstring option" where
  "getContentAfterPhrase line =
     (case detectClauseNumber line of
        None \<Rightarrow> None
      | Some clauseDetected \<Rightarrow>
          (case getRemainder line of
             None \<Rightarrow> None
           | Some remainder \<Rightarrow>
               (case detectLeadingPhrase line (Some remainder) of
                  None \<Rightarrow> None
                | Some detected \<Rightarrow>
                    if lp_hasContent detected then lp_content detected else None)))"

section \<open>TextSplitter\<close>

text \<open>
  The body of the loop of \<open>splitText\<close>: the rows one line adds. A row is a string;
  \<open>getClauseNumberRow\<close> could give null, which the loop would push as it is, so a row is
  kept as an option until the end of the line's branch.
\<close>

definition splitLine :: "jstring \<Rightarrow> jstring option list" where
  "splitLine line =
     (case detectClauseNumber line of
        Some clauseDetected \<Rightarrow>
          [getClauseNumberRow line] @
          (case getLeadingPhrase line of
             Some leadingPhrase \<Rightarrow>
               [Some leadingPhrase] @
               (case getContentAfterPhrase line of
                  Some contentAfterPhrase \<Rightarrow> [Some contentAfterPhrase]
                | None \<Rightarrow> [])
           | None \<Rightarrow>
               (case getRemainder line of
                  Some remainder \<Rightarrow> [Some remainder]
                | None \<Rightarrow> []))
      | None \<Rightarrow>
          if isSubClause line then [Some line]
          else [Some line])"

text \<open>
  A truthy leading phrase, content or remainder is a non-empty string; the three getters
  never give an empty string, so \<open>Some\<close> is truthy here.
\<close>

definition splitText :: "jsvalue \<Rightarrow> jstring option list" where
  "splitText txt =
     (if falsy txt \<or> typeof txt \<noteq> TString then []
      else (case txt of
              JString s \<Rightarrow> concat (map splitLine (split_lines s))
            | _ \<Rightarrow> []))"

text \<open>\<^verbatim>\<open>row.replace(/  +/g, ' ')\<close>: every run of two or more spaces becomes one space.\<close>

fun collapseSpaces :: "jstring \<Rightarrow> jstring" where
  "collapseSpaces (c # d # cs) =
     (if c = SPACE \<and> d = SPACE then collapseSpaces (d # cs) else c # collapseSpaces (d # cs))"
| "collapseSpaces cs = cs"

text \<open>A row that is not a string is passed through by the normalisation.\<close>

definition normalizeRow :: "jstring option \<Rightarrow> jstring option" where
  "normalizeRow row = (case row of None \<Rightarrow> None | Some r \<Rightarrow> Some (collapseSpaces (trim r)))"

definition splitWithNormalization :: "jsvalue \<Rightarrow> jstring option list" where
  "splitWithNormalization txt = map normalizeRow (splitText txt)"

record analysis =
  totalLines :: nat
  clauseCount :: nat
  leadingPhraseCount :: nat
  estimatedRows :: nat
  nonEmptyLines :: "nat option"

text \<open>One step of the loop of \<open>analyzeSplitting\<close> over the three counters.\<close>

definition analyzeLine :: "nat \<times> nat \<times> nat \<Rightarrow> jstring \<Rightarrow> nat \<times> nat \<times> nat" where
  "analyzeLine acc line =
     (case acc of (clauses, phrases, est) \<Rightarrow>
        if hasClauseNumber line then
          (if hasLeadingPhrase line then
             (case getContentAfterPhrase line of
                Some content \<Rightarrow> (clauses + 1, phrases + 1, est + 1 + 1 + 1)
              | None \<Rightarrow> (clauses + 1, phrases + 1, est + 1 + 1))
           else (clauses + 1, phrases, est + 1))
        else (clauses, phrases, est))"

definition analyzeSplitting :: "jsvalue \<Rightarrow> analysis" where
  "analyzeSplitting txt =
     (if falsy txt \<or> typeof txt \<noteq> TString then
        \<lparr> totalLines = 0, clauseCount = 0, leadingPhraseCount = 0, estimatedRows = 0,
          nonEmptyLines = None \<rparr>
      else (case txt of
              JString s \<Rightarrow>
                let lines = split_lines s
                in (case foldl analyzeLine (0, 0, length lines) lines of
                      (clauses, phrases, est) \<Rightarrow>
                        \<lparr> totalLines = length lines, clauseCount = clauses,
                          leadingPhraseCount = phrases, estimatedRows = est,
                          nonEmptyLines = Some (length (filter (\<lambda>l. trim l \<noteq> []) lines)) \<rparr>)
            | _ \<Rightarrow> \<lparr> totalLines = 0, clauseCount = 0, leadingPhraseCount = 0,
                     estimatedRows = 0, nonEmptyLines = None \<rparr>))"

definition isLargeDocument :: "jsvalue \<Rightarrow> bool" where
  "isLargeDocument txt = (if falsy txt then False else estimatedRows (analyzeSplitting txt) > 1000)"

section \<open>RowGenerator\<close>

text \<open>
  The patterns of \<open>isClauseNumber\<close>, \<^verbatim>\<open>^[symbols]?digit+letter?\.?$\<close>, tested on
  the trimmed row text. They have no \<^verbatim>\<open>i\<close> flag and allow no white space.
\<close>

definition rowClausePattern :: "(codeunit \<Rightarrow> bool) \<Rightarrow> (codeunit \<Rightarrow> bool) \<Rightarrow> jstring \<Rightarrow> bool" where
  "rowClausePattern digit letter s =
     (let (sym, r1) = optClass isAmendmentSymbol s;
          ds = takeWhile digit r1; r2 = dropWhile digit r1
      in ds \<noteq> [] \<and>
         (let (lt, r3) = optClass letter r2;
              (dot, r4) = optClass (\<lambda>c. c = FULL_STOP) r3
          in r4 = []))"

definition isClauseNumber :: "jstring \<Rightarrow> bool" where
  "isClauseNumber txt =
     (if txt = [] \<or> trim txt = [] then False
      else
        let trimmed = trim txt
        in if rowClausePattern isDigit isLower trimmed then True
           else if rowClausePattern isDevanagariDigit isDevanagariLetter trimmed then True
           else False)"

definition isLeadingPhrase :: "jstring \<Rightarrow> bool" where
  "isLeadingPhrase txt =
     (if txt = [] \<or> trim txt = [] then False
      else let trimmed = trim txt in endsWithColon trimmed)"

definition isAmendment :: "jstring \<Rightarrow> bool" where
  "isAmendment txt =
     (if txt = [] then False
      else list_ex (\<lambda>symbol. symbol \<in> set txt) amendmentSymbols)"

definition detectLanguage :: "jstring \<Rightarrow> language_tag" where
  "detectLanguage txt =
     (if txt = [] then Unknown
      else
        let hasEnglish = list_ex isLetter txt;
            hasDevanagari = list_ex isDevanagari txt
        in if hasEnglish \<and> hasDevanagari then Mixed
           else if hasDevanagari then Devanagari
           else if hasEnglish then English
           else Other)"

record row =
  r_number :: nat
  r_text :: jstring
  r_isEmpty :: bool
  r_isClauseNumber :: bool
  r_isLeadingPhrase :: bool
  r_isAmendment :: bool
  r_language :: language_tag
  r_length :: nat

definition rowObj :: "nat \<Rightarrow> jstring \<Rightarrow> row" where
  "rowObj i txt =
     \<lparr> r_number = i + 1, r_text = txt, r_isEmpty = (trim txt = []),
       r_isClauseNumber = isClauseNumber txt, r_isLeadingPhrase = isLeadingPhrase txt,
       r_isAmendment = isAmendment txt, r_language = detectLanguage txt,
       r_length = length txt \<rparr>"

text \<open>
  The loop of \<open>generateRows\<close> from index \<open>i\<close> on. Calling \<^verbatim>\<open>trim\<close> on a row that
  is null throws a TypeError, which ends the loop.
\<close>

datatype error = TypeError

fun generateRowsFrom :: "nat \<Rightarrow> jstring option list \<Rightarrow> error + row list" where
  "generateRowsFrom i [] = Inr []"
| "generateRowsFrom i (None # rest) = Inl TypeError"
| "generateRowsFrom i (Some txt # rest) =
     (case generateRowsFrom (i + 1) rest of
        Inl e \<Rightarrow> Inl e
      | Inr rowObjects \<Rightarrow> Inr (rowObj i txt # rowObjects))"

definition generateRows :: "jstring option list \<Rightarrow> error + row list" where
  "generateRows rows = generateRowsFrom 0 rows"

definition generateRowsFromText :: "jsvalue \<Rightarrow> error + row list" where
  "generateRowsFromText txt = generateRows (splitWithNormalization txt)"

section \<open>TableRenderer: the collapse view\<close>

text \<open>
  The code calls \<^verbatim>\<open>TableRenderer.setFullRows(rows)\<close> and then
  \<^verbatim>\<open>TableRenderer.getDisplayRows(shouldCollapse, shouldCollapse)\<close>, the second argument
  being commented as "renumber when collapsing"; the \<open>TableRenderer\<close> object of the
  sources defines neither method. The three definitions below stand for the missing code.
  The rows are row objects with further fields added, hence the record scheme; the rows
  stored by \<open>setFullRows\<close> are passed in.
\<close>

text \<open>
  Modelled from the spec: the body of \<open>TableRenderer.filterEmptyRows\<close> is missing from
  the sources. The spec: with \<open>collapseEmpty = true\<close> the view "removes rows where
  \<open>isEmpty = true\<close>"; it is a new sequence, its input is not changed.
\<close>

definition filterEmptyRows :: "'a row_scheme list \<Rightarrow> 'a row_scheme list" where
  "filterEmptyRows rows = filter (\<lambda>row. \<not> r_isEmpty row) rows"

text \<open>
  Modelled from the spec: the renumbering that the second argument of
  \<open>getDisplayRows\<close> asks for is missing from the sources. The spec leaves the policy open:
  sequence numbers are either "preserved from the original" or "renumbered contiguously",
  and a sequence number is the index plus one.
\<close>

fun renumberFrom :: "nat \<Rightarrow> 'a row_scheme list \<Rightarrow> 'a row_scheme list" where
  "renumberFrom i [] = []"
| "renumberFrom i (row # rows) = row\<lparr> r_number := i + 1 \<rparr> # renumberFrom (i + 1) rows"

text \<open>
  Modelled from the spec: the body of \<open>TableRenderer.getDisplayRows\<close> is missing from the
  sources. The spec: \<open>view(rows, collapseEmpty)\<close> with \<open>collapseEmpty = false\<close> "returns the
  input unchanged (ordering/numbering untouched)", with \<open>collapseEmpty = true\<close> it removes
  the empty rows; \<open>renumber\<close> chooses between the two numbering policies the spec names.
\<close>

definition getDisplayRows :: "'a row_scheme list \<Rightarrow> bool \<Rightarrow> bool \<Rightarrow> 'a row_scheme list" where
  "getDisplayRows rows collapseEmpty renumber =
     (if collapseEmpty then
        (if renumber then renumberFrom 0 (filterEmptyRows rows) else filterEmptyRows rows)
      else rows)"

section \<open>TextExtractor: cleaning extracted text\<close>

text \<open>\<^verbatim>\<open>replace(/\r\n/g, '\n')\<close> and \<^verbatim>\<open>replace(/\r/g, '\n')\<close>.\<close>

fun replaceCRLF :: "jstring \<Rightarrow> jstring" where
  "replaceCRLF (c # d # cs) =
     (if c = CR \<and> d = LF then LF # replaceCRLF cs else c # replaceCRLF (d # cs))"
| "replaceCRLF cs = cs"

definition replaceCR :: "jstring \<Rightarrow> jstring" where
  "replaceCR s = map (\<lambda>c. if c = CR then LF else c) s"

definition normalizeLineEndings :: "jstring \<Rightarrow> jstring" where
  "normalizeLineEndings s = replaceCR (replaceCRLF s)"

definition cleanText :: "jstring \<Rightarrow> jstring" where
  "cleanText txt =
     (if txt = [] then []
      else
        let cleaned = (case txt of [] \<Rightarrow> [] | c # cs \<Rightarrow> if c = 0xFEFF then cs else txt)
        in normalizeLineEndings cleaned)"

section \<open>Unfolding the program on concrete inputs\<close>

lemmas class_defs = isWhiteSpace_def isDigit_def isLower_def isLetter_def isDevanagariDigit_def
  isDevanagariLetter_def isDevanagari_def isAmendmentSymbol_def amendmentSymbols_def
  isSubClauseChar_def

lemmas string_defs = js_def trimStart_def trimEnd_def trim_def substringFrom_def substringTo_def
  endsWithColon_def optClass_def

lemmas detector_defs = numeralPattern_def englishNumeralPattern_def devanagariNumeralPattern_def
  subClausePattern_def extractAmendmentSymbol_def isAlphaNumeric_def devanagariLetters_def
  detectClauseNumber_def hasClauseNumber_def getClauseNumberRow_def getRemainder_def
  isSubClause_def

lemmas phrase_defs = detectLeadingPhrase_def hasLeadingPhrase_def getLeadingPhrase_def
  getContentAfterPhrase_def

lemmas splitter_defs = splitLine_def splitText_def normalizeRow_def splitWithNormalization_def
  analyzeLine_def analyzeSplitting_def isLargeDocument_def

lemmas row_defs = rowClausePattern_def isClauseNumber_def isLeadingPhrase_def isAmendment_def
  detectLanguage_def rowObj_def generateRows_def generateRowsFromText_def

lemmas eval_defs = class_defs string_defs detector_defs phrase_defs splitter_defs row_defs

section \<open>Basic facts about the splitter\<close>

lemma getClauseNumberRow_Some:
  "detectClauseNumber line = Some cl \<Longrightarrow> \<exists>r. getClauseNumberRow line = Some r"
  by (simp add: getClauseNumberRow_def split: option.splits)

lemma splitLine_length: "1 \<le> length (splitLine line) \<and> length (splitLine line) \<le> 3"
  by (simp add: splitLine_def split: option.splits)

lemma splitLine_all_Some: "None \<notin> set (splitLine line)"
  by (auto simp: splitLine_def dest: getClauseNumberRow_Some split: option.splits)

lemma generateRowsFrom_total:
  "None \<notin> set rows \<Longrightarrow> \<exists>rs. generateRowsFrom i rows = Inr rs \<and> length rs = length rows"
proof (induction rows arbitrary: i)
  case Nil
  then show ?case by simp
next
  case (Cons r rows)
  then obtain t where r: "r = Some t" by (cases r) auto
  from Cons have "None \<notin> set rows" by simp
  from Cons.IH [OF this, of "i + 1"] obtain rs
    where "generateRowsFrom (i + 1) rows = Inr rs" and "length rs = length rows" by blast
  with r show ?case by simp
qed

lemma split_lines_not_Nil: "split_lines s \<noteq> []"
  by (induction s) (auto split: list.splits)

lemma split_lines_single: "LF \<notin> set s \<Longrightarrow> split_lines s = [s]"
  by (induction s) auto

lemma length_concat_lower:
  "(\<forall>x \<in> set xs. 1 \<le> length (f x)) \<Longrightarrow> length xs \<le> length (concat (map f xs))"
  by (induction xs) auto

lemma splitText_string:
  "s \<noteq> [] \<Longrightarrow> splitText (JString s) = concat (map splitLine (split_lines s))"
  by (simp add: splitText_def)

lemma splitText_all_Some: "None \<notin> set (splitText v)"
  using splitLine_all_Some by (cases v) (auto simp: splitText_def)

lemma normalizeRow_None: "None = normalizeRow r \<longleftrightarrow> r = None"
  by (simp add: normalizeRow_def split: option.splits)

text \<open>The pipeline never throws: no row of the splitter is null.\<close>

lemma pipeline_total:
  "\<exists>rows. generateRowsFromText v = Inr rows \<and> length rows = length (splitText v)"
proof -
  have "None \<notin> set (splitWithNormalization v)"
    using splitText_all_Some [of v] by (auto simp: splitWithNormalization_def normalizeRow_None)
  from generateRowsFrom_total [OF this, of 0] show ?thesis
    by (simp add: generateRowsFromText_def generateRows_def splitWithNormalization_def)
qed

lemma hasLeadingPhrase_iff: "hasLeadingPhrase line \<longleftrightarrow> getLeadingPhrase line \<noteq> None"
  by (simp add: hasLeadingPhrase_def getLeadingPhrase_def split: option.splits)

text \<open>What the three getters give is never the empty string, so it is truthy.\<close>

lemma getRemainder_not_Nil: "getRemainder line = Some r \<Longrightarrow> r \<noteq> []"
  by (auto simp: getRemainder_def Let_def split: option.splits if_splits)

lemma getLeadingPhrase_not_Nil: "getLeadingPhrase line = Some p \<Longrightarrow> p \<noteq> []"
  by (auto simp: getLeadingPhrase_def detectLeadingPhrase_def Let_def
      split: option.splits if_splits)

lemma getContentAfterPhrase_not_Nil: "getContentAfterPhrase line = Some c \<Longrightarrow> c \<noteq> []"
  by (auto simp: getContentAfterPhrase_def detectLeadingPhrase_def Let_def
      split: option.splits if_splits)

subsection \<open>The patterns\<close>

lemma numeralPattern_Some_digit:
  assumes "numeralPattern digit letter s = Some m"
  shows "\<exists>c r. dropWhile isWhiteSpace (snd (optClass isAmendmentSymbol s)) = c # r \<and> digit c"
proof -
  let ?r2 = "dropWhile isWhiteSpace (snd (optClass isAmendmentSymbol s))"
  from assms have "takeWhile digit ?r2 \<noteq> []"
    by (auto simp: numeralPattern_def Let_def split: prod.splits if_splits)
  then show ?thesis by (cases ?r2) (auto split: if_splits)
qed

lemma digit_ranges_disjoint: "\<not> (isDigit c \<and> isDevanagariDigit c)"
  by (simp add: isDigit_def isDevanagariDigit_def)

lemma subClausePattern_paren:
  assumes "subClausePattern s"
  shows "\<exists>r. dropWhile isWhiteSpace s = LPAREN # r"
  using assms by (auto simp: subClausePattern_def split: list.splits)

text \<open>No numeral pattern matches a text whose first non-blank character is a parenthesis.\<close>

lemma numeralPattern_paren:
  assumes "dropWhile isWhiteSpace s = LPAREN # r" and "\<not> digit LPAREN"
  shows "numeralPattern digit letter s = None"
proof (cases s)
  case Nil
  with assms show ?thesis by simp
next
  case (Cons c cs)
  show ?thesis
  proof (cases "isWhiteSpace c")
    case True
    then have "\<not> isAmendmentSymbol c" by (auto simp: class_defs)
    with Cons assms show ?thesis
      by (simp add: numeralPattern_def optClass_def)
  next
    case False
    with Cons assms have "c = LPAREN" by simp
    with Cons assms show ?thesis
      by (simp add: numeralPattern_def optClass_def class_defs)
  qed
qed

lemma subClause_excludes_numerals:
  assumes "subClausePattern s"
  shows "englishNumeralPattern s = None \<and> devanagariNumeralPattern s = None"
proof -
  from subClausePattern_paren [OF assms] obtain r where "dropWhile isWhiteSpace s = LPAREN # r" ..
  then show ?thesis
    by (simp add: englishNumeralPattern_def devanagariNumeralPattern_def
        numeralPattern_paren [where r = r] isDigit_def isDevanagariDigit_def)
qed

lemma paren_line_detect_None:
  assumes "trimStart line = LPAREN # r"
  shows "detectClauseNumber line = None"
proof -
  have "dropWhile isWhiteSpace (trimStart line) = LPAREN # r"
    using assms by (simp add: trimStart_def isWhiteSpace_def)
  then have "englishNumeralPattern (trimStart line) = None"
    and "devanagariNumeralPattern (trimStart line) = None"
    by (simp_all add: englishNumeralPattern_def devanagariNumeralPattern_def
        numeralPattern_paren [where r = r] isDigit_def isDevanagariDigit_def)
  then show ?thesis by (simp add: detectClauseNumber_def Let_def)
qed

subsection \<open>The estimator\<close>

lemma analyzeLine_bound:
  "analyzeLine (c, p, e) line = (c', p', e') \<Longrightarrow> e + length (splitLine line) \<le> e' + 1"
  by (auto simp: analyzeLine_def splitLine_def hasClauseNumber_def hasLeadingPhrase_iff
      split: option.splits if_splits)

lemma foldl_analyzeLine_bound:
  "foldl analyzeLine (c, p, e) ls = (c', p', e') \<Longrightarrow>
     e + length (concat (map splitLine ls)) \<le> e' + length ls"
proof (induction ls arbitrary: c p e)
  case Nil
  then show ?case by simp
next
  case (Cons l ls)
  obtain c1 p1 e1 where step: "analyzeLine (c, p, e) l = (c1, p1, e1)"
    by (cases "analyzeLine (c, p, e) l") auto
  with Cons.prems have "foldl analyzeLine (c1, p1, e1) ls = (c', p', e')" by simp
  from Cons.IH [OF this] analyzeLine_bound [OF step] show ?case by simp
qed

lemma estimatedRows_bound: "length (splitText v) \<le> estimatedRows (analyzeSplitting v)"
proof (cases "falsy v \<or> typeof v \<noteq> TString")
  case True
  then show ?thesis by (simp add: splitText_def)
next
  case False
  then obtain s where v: "v = JString s" and s: "s \<noteq> []" by (cases v) auto
  obtain c p e
    where f: "foldl analyzeLine (0, 0, length (split_lines s)) (split_lines s) = (c, p, e)"
    by (cases "foldl analyzeLine (0, 0, length (split_lines s)) (split_lines s)") auto
  from foldl_analyzeLine_bound [OF f] have "length (concat (map splitLine (split_lines s))) \<le> e"
    by simp
  with v s f show ?thesis by (simp add: splitText_def analyzeSplitting_def Let_def)
qed

subsection \<open>The shapes the patterns accept\<close>

lemma optClass_split:
  "optClass P s = (a, b) \<Longrightarrow>
     s = a @ b \<and> ((a = [] \<and> (b = [] \<or> \<not> P (hd b))) \<or> (\<exists>c. a = [c] \<and> P c))"
  by (cases s) (auto simp: optClass_def split: if_splits)

lemma optClass_hit: "P c \<Longrightarrow> optClass P (c # xs) = ([c], xs)"
  by (simp add: optClass_def)

lemma optClass_miss: "xs = [] \<or> \<not> P (hd xs) \<Longrightarrow> optClass P xs = ([], xs)"
  by (cases xs) (auto simp: optClass_def)

lemma run_then_stop:
  assumes "\<forall>c \<in> set ds. P c" and "rest = [] \<or> \<not> P (hd rest)"
  shows "takeWhile P (ds @ rest) = ds" and "dropWhile P (ds @ rest) = rest"
  using assms by (cases rest; simp add: takeWhile_append2 dropWhile_append2)+

lemma rowClausePattern_shape:
  assumes "rowClausePattern digit letter s"
  shows "\<exists>sym ds lt dot. s = sym @ ds @ lt @ dot \<and>
           (sym = [] \<or> (\<exists>c. sym = [c] \<and> isAmendmentSymbol c)) \<and>
           ds \<noteq> [] \<and> (\<forall>c \<in> set ds. digit c) \<and>
           (lt = [] \<or> (\<exists>c. lt = [c] \<and> letter c)) \<and>
           (dot = [] \<or> dot = [FULL_STOP])"
proof -
  obtain sy r1 where o1: "optClass isAmendmentSymbol s = (sy, r1)" by force
  let ?ds = "takeWhile digit r1" and ?r2 = "dropWhile digit r1"
  obtain lt r3 where o2: "optClass letter ?r2 = (lt, r3)" by force
  obtain dot r4 where o3: "optClass (\<lambda>c. c = FULL_STOP) r3 = (dot, r4)" by force
  from assms o1 o2 o3 have ds: "?ds \<noteq> []" and r4: "r4 = []"
    by (simp_all add: rowClausePattern_def Let_def)
  from optClass_split [OF o1] have s1: "s = sy @ r1"
    and c1: "sy = [] \<or> (\<exists>c. sy = [c] \<and> isAmendmentSymbol c)" by auto
  from optClass_split [OF o2] have s2: "?r2 = lt @ r3"
    and c2: "lt = [] \<or> (\<exists>c. lt = [c] \<and> letter c)" by auto
  from optClass_split [OF o3] r4 have s3: "r3 = dot"
    and c3: "dot = [] \<or> dot = [FULL_STOP]" by auto
  have "r1 = ?ds @ ?r2" by simp
  with s1 s2 s3 have "s = sy @ ?ds @ lt @ dot" by simp
  note this c1 c2 c3
  moreover have "\<forall>c \<in> set ?ds. digit c" by (auto dest: set_takeWhileD)
  ultimately show ?thesis using ds by blast
qed

lemma optClass_prefix:
  assumes "a = [] \<or> (\<exists>c. a = [c] \<and> P c)" and "a = [] \<longrightarrow> b = [] \<or> \<not> P (hd b)"
  shows "optClass P (a @ b) = (a, b)"
  using assms by (auto simp: optClass_hit optClass_miss)

lemma not_space_no_run:
  assumes "xs \<noteq> []" and "\<not> isWhiteSpace (hd xs)"
  shows "takeWhile isWhiteSpace xs = []" and "dropWhile isWhiteSpace xs = xs"
  using assms by (cases xs; simp)+

lemma shape_numeralPattern:
  assumes sy: "sy = [] \<or> (\<exists>c. sy = [c] \<and> isAmendmentSymbol c)"
    and ds: "ds \<noteq> []" "\<forall>c \<in> set ds. digit c"
    and lt: "lt = [] \<or> (\<exists>c. lt = [c] \<and> letter c)"
    and dig: "\<And>c. digit c \<Longrightarrow> \<not> isAmendmentSymbol c \<and> \<not> isWhiteSpace c"
    and ltr: "\<And>c. letter c \<Longrightarrow> \<not> digit c"
    and dot: "\<not> digit FULL_STOP" "\<not> letter FULL_STOP"
  shows "numeralPattern digit letter (sy @ ds @ lt @ FULL_STOP # rest) =
           Some (sy @ ds @ lt @ [FULL_STOP], ds @ lt)"
proof -
  let ?tail = "lt @ FULL_STOP # rest"
  from ds have hd_ds: "digit (hd ds)" by (cases ds) auto
  with ds dig have "hd (ds @ ?tail) = hd ds" and "\<not> isAmendmentSymbol (hd ds)"
    and nws: "\<not> isWhiteSpace (hd ds)" by auto
  with sy have o1: "optClass isAmendmentSymbol (sy @ ds @ ?tail) = (sy, ds @ ?tail)"
    by (intro optClass_prefix) auto
  from ds nws have w1: "takeWhile isWhiteSpace (ds @ ?tail) = []"
    and w1': "dropWhile isWhiteSpace (ds @ ?tail) = ds @ ?tail"
    by (simp_all add: not_space_no_run)
  from lt ltr dot have "?tail = [] \<or> \<not> digit (hd ?tail)" by auto
  with ds(2) have d: "takeWhile digit (ds @ ?tail) = ds"
    and d': "dropWhile digit (ds @ ?tail) = ?tail"
    by (rule run_then_stop)+
  from lt dot have o2: "optClass letter (lt @ FULL_STOP # rest) = (lt, FULL_STOP # rest)"
    by (intro optClass_prefix) auto
  have w2: "\<not> isWhiteSpace FULL_STOP" by (simp add: isWhiteSpace_def)
  show ?thesis
    unfolding numeralPattern_def o1 by (simp add: w1 w1' d d' o2 w2 ds)
qed

lemma shape_rowClausePattern:
  assumes sy: "sy = [] \<or> (\<exists>c. sy = [c] \<and> isAmendmentSymbol c)"
    and ds: "ds \<noteq> []" "\<forall>c \<in> set ds. digit c"
    and lt: "lt = [] \<or> (\<exists>c. lt = [c] \<and> letter c)"
    and dt: "dot = [] \<or> dot = [FULL_STOP]"
    and dig: "\<And>c. digit c \<Longrightarrow> \<not> isAmendmentSymbol c"
    and ltr: "\<And>c. letter c \<Longrightarrow> \<not> digit c"
    and dot: "\<not> digit FULL_STOP" "\<not> letter FULL_STOP"
  shows "rowClausePattern digit letter (sy @ ds @ lt @ dot)"
proof -
  let ?tail = "lt @ dot"
  from ds have hd_ds: "digit (hd ds)" by (cases ds) auto
  with ds dig have "hd (ds @ ?tail) = hd ds" and "\<not> isAmendmentSymbol (hd ds)" by auto
  with sy have o1: "optClass isAmendmentSymbol (sy @ ds @ ?tail) = (sy, ds @ ?tail)"
    by (intro optClass_prefix) auto
  from lt dt ltr dot have "?tail = [] \<or> \<not> digit (hd ?tail)" by auto
  with ds(2) have d: "takeWhile digit (ds @ ?tail) = ds"
    and d': "dropWhile digit (ds @ ?tail) = ?tail"
    by (rule run_then_stop)+
  from lt dt dot have o2: "optClass letter (lt @ dot) = (lt, dot)"
    by (intro optClass_prefix) auto
  from dt have o3: "optClass (\<lambda>c. c = FULL_STOP) dot = (dot, [])"
    by (auto simp: optClass_def)
  show ?thesis
    unfolding rowClausePattern_def o1 by (simp add: d d' o2 o3 ds)
qed

lemma numeralPattern_shape:
  assumes "numeralPattern digit letter s = Some (m0, m1)"
  shows "\<exists>sym ws1 ds lt ws2 rest. s = m0 @ rest \<and>
           m0 = sym @ ws1 @ ds @ lt @ ws2 @ [FULL_STOP] \<and> m1 = ds @ lt \<and>
           (sym = [] \<or> (\<exists>c. sym = [c] \<and> isAmendmentSymbol c)) \<and>
           (\<forall>c \<in> set ws1. isWhiteSpace c) \<and>
           ds \<noteq> [] \<and> (\<forall>c \<in> set ds. digit c) \<and>
           (lt = [] \<or> (\<exists>c. lt = [c] \<and> letter c)) \<and>
           (\<forall>c \<in> set ws2. isWhiteSpace c)"
proof -
  obtain sy r1 where o1: "optClass isAmendmentSymbol s = (sy, r1)" by force
  let ?ws1 = "takeWhile isWhiteSpace r1" and ?r2 = "dropWhile isWhiteSpace r1"
  let ?ds = "takeWhile digit ?r2" and ?r3 = "dropWhile digit ?r2"
  obtain lt r4 where o2: "optClass letter ?r3 = (lt, r4)" by force
  let ?ws2 = "takeWhile isWhiteSpace r4" and ?r5 = "dropWhile isWhiteSpace r4"
  from assms o1 o2 have ds: "?ds \<noteq> []"
    by (auto simp: numeralPattern_def Let_def split: if_splits)
  with assms o1 o2 obtain rest where r5: "?r5 = FULL_STOP # rest"
    and m0: "m0 = sy @ ?ws1 @ ?ds @ lt @ ?ws2 @ [FULL_STOP]" and m1: "m1 = ?ds @ lt"
    by (auto simp: numeralPattern_def Let_def split: if_splits list.splits)
  from optClass_split [OF o1] have s1: "s = sy @ r1"
    and c1: "sy = [] \<or> (\<exists>c. sy = [c] \<and> isAmendmentSymbol c)" by auto
  from optClass_split [OF o2] have s2: "?r3 = lt @ r4"
    and c2: "lt = [] \<or> (\<exists>c. lt = [c] \<and> letter c)" by auto
  have "r1 = ?ws1 @ ?r2" and "?r2 = ?ds @ ?r3" and "r4 = ?ws2 @ ?r5" by simp_all
  with s1 s2 r5 have "s = sy @ ?ws1 @ ?ds @ lt @ ?ws2 @ FULL_STOP # rest"
    by (metis)
  with m0 have "s = m0 @ rest" by simp
  moreover have "\<forall>c \<in> set ?ws1. isWhiteSpace c" and "\<forall>c \<in> set ?ds. digit c"
    and "\<forall>c \<in> set ?ws2. isWhiteSpace c" by (auto dest: set_takeWhileD)
  ultimately show ?thesis using m0 m1 c1 c2 ds by blast
qed

lemma no_space_trim:
  assumes "\<forall>c \<in> set s. \<not> isWhiteSpace c"
  shows "trimStart s = s" and "trim s = s"
proof -
  have a: "dropWhile isWhiteSpace xs = xs" if "\<forall>c \<in> set xs. \<not> isWhiteSpace c" for xs
    using that by (cases xs) auto
  from assms show "trimStart s = s" by (simp add: trimStart_def a)
  with assms show "trim s = s" by (simp add: trim_def trimEnd_def a)
qed

lemma indexOf_first: "c \<notin> set xs \<Longrightarrow> indexOf c (xs @ c # ys) = Some (length xs)"
  by (induction xs) auto

text \<open>A text of the row pattern, its period supplied if missing, is matched in full.\<close>

lemma rowClausePattern_matches:
  assumes row: "rowClausePattern digit letter s"
    and dig: "\<And>c. digit c \<Longrightarrow> \<not> isAmendmentSymbol c \<and> \<not> isWhiteSpace c"
    and ltr: "\<And>c. letter c \<Longrightarrow> letter' c"
    and ltr': "\<And>c. letter' c \<Longrightarrow> \<not> digit c"
    and dot: "\<not> digit FULL_STOP" "\<not> letter' FULL_STOP"
  shows "\<exists>body m1. (s = body \<or> s = body @ [FULL_STOP]) \<and> body \<noteq> [] \<and>
           (\<forall>c \<in> set body. isAmendmentSymbol c \<or> digit c \<or> letter c) \<and>
           numeralPattern digit letter' (body @ [FULL_STOP]) = Some (body @ [FULL_STOP], m1)"
proof -
  from rowClausePattern_shape [OF row] obtain sy ds lt dt
    where s: "s = sy @ ds @ lt @ dt"
      and sy: "sy = [] \<or> (\<exists>c. sy = [c] \<and> isAmendmentSymbol c)"
      and ds: "ds \<noteq> []" "\<forall>c \<in> set ds. digit c"
      and lt: "lt = [] \<or> (\<exists>c. lt = [c] \<and> letter c)"
      and dt: "dt = [] \<or> dt = [FULL_STOP]" by blast
  let ?body = "sy @ ds @ lt"
  from lt ltr have lt': "lt = [] \<or> (\<exists>c. lt = [c] \<and> letter' c)" by auto
  from shape_numeralPattern [OF sy ds lt' dig ltr' dot, of "[]"]
  have "numeralPattern digit letter' (?body @ [FULL_STOP]) = Some (?body @ [FULL_STOP], ds @ lt)"
    by simp
  moreover from s dt have "s = ?body \<or> s = ?body @ [FULL_STOP]" by auto
  moreover from ds have "?body \<noteq> []" by simp
  moreover from sy ds lt have "\<forall>c \<in> set ?body. isAmendmentSymbol c \<or> digit c \<or> letter c"
    by auto
  ultimately show ?thesis by blast
qed

text \<open>A text without white space that is matched in full is of the row pattern.\<close>

lemma full_match_rowClausePattern:
  assumes m: "numeralPattern digit letter' (body @ [FULL_STOP]) = Some (m0, m1)"
    and full: "trim m0 = body @ [FULL_STOP]"
    and nws: "\<forall>c \<in> set body. \<not> isWhiteSpace c"
    and low: "\<And>c. c \<in> set body \<Longrightarrow> letter' c \<Longrightarrow> letter c"
    and dig: "\<And>c. digit c \<Longrightarrow> \<not> isAmendmentSymbol c"
    and ltr: "\<And>c. letter c \<Longrightarrow> \<not> digit c"
    and dot: "\<not> digit FULL_STOP" "\<not> letter FULL_STOP"
    and dt: "dt = [] \<or> dt = [FULL_STOP]"
  shows "rowClausePattern digit letter (body @ dt)"
proof -
  from numeralPattern_shape [OF m] obtain sy ws1 ds lt ws2 rest
    where s: "body @ [FULL_STOP] = m0 @ rest"
      and m0: "m0 = sy @ ws1 @ ds @ lt @ ws2 @ [FULL_STOP]"
      and sy: "sy = [] \<or> (\<exists>c. sy = [c] \<and> isAmendmentSymbol c)"
      and ws1: "\<forall>c \<in> set ws1. isWhiteSpace c"
      and ds: "ds \<noteq> []" "\<forall>c \<in> set ds. digit c"
      and lt: "lt = [] \<or> (\<exists>c. lt = [c] \<and> letter' c)"
      and ws2: "\<forall>c \<in> set ws2. isWhiteSpace c" by blast
  have nd: "\<not> isWhiteSpace FULL_STOP" by (simp add: isWhiteSpace_def)
  with nws have all: "\<forall>c \<in> set (body @ [FULL_STOP]). \<not> isWhiteSpace c" by simp
  with s have "\<forall>c \<in> set m0. \<not> isWhiteSpace c" by (metis Un_iff set_append)
  then have "trim m0 = m0" by (rule no_space_trim)
  with full have m0': "m0 = body @ [FULL_STOP]" by simp
  with all m0 ws1 ws2 have "ws1 = []" and "ws2 = []"
    by (metis Un_iff set_append last_in_set)+
  with m0 m0' have body: "body = sy @ ds @ lt" by simp
  with lt low have lt': "lt = [] \<or> (\<exists>c. lt = [c] \<and> letter c)" by auto
  from shape_rowClausePattern [OF sy ds lt' dt dig ltr dot] body show ?thesis by simp
qed

lemma english_devanagari_exclusive:
  "\<not> (englishNumeralPattern s \<noteq> None \<and> devanagariNumeralPattern s \<noteq> None)"
proof
  assume "englishNumeralPattern s \<noteq> None \<and> devanagariNumeralPattern s \<noteq> None"
  then obtain m m' where "numeralPattern isDigit isLetter s = Some m"
    and "numeralPattern isDevanagariDigit isDevanagariLetter s = Some m'"
    by (auto simp: englishNumeralPattern_def devanagariNumeralPattern_def)
  from numeralPattern_Some_digit [OF this(1)] numeralPattern_Some_digit [OF this(2)]
  show False using digit_ranges_disjoint by auto
qed

lemma rowClausePattern_Nil: "\<not> rowClausePattern digit letter []"
  by (simp add: rowClausePattern_def optClass_def)


lemma symbol_class:
  assumes "isAmendmentSymbol c"
  shows "\<not> isWhiteSpace c" and "c \<noteq> FULL_STOP" and "\<not> isDigit c" and "\<not> isDevanagariDigit c"
    and "\<not> (0x41 \<le> c \<and> c \<le> 0x5A)" and "\<not> isLetter c" and "\<not> isDevanagariLetter c"
  using assms by (auto simp: class_defs)

lemma digit_class:
  assumes "isDigit c"
  shows "\<not> isWhiteSpace c" and "c \<noteq> FULL_STOP" and "\<not> isAmendmentSymbol c" and "\<not> isLetter c"
    and "\<not> (0x41 \<le> c \<and> c \<le> 0x5A)"
  using assms by (auto simp: class_defs)

lemma devanagariDigit_class:
  assumes "isDevanagariDigit c"
  shows "\<not> isWhiteSpace c" and "c \<noteq> FULL_STOP" and "\<not> isAmendmentSymbol c"
    and "\<not> isDevanagariLetter c" and "\<not> (0x41 \<le> c \<and> c \<le> 0x5A)"
  using assms by (auto simp: class_defs)

lemma letter_class:
  assumes "isLetter c"
  shows "\<not> isWhiteSpace c" and "c \<noteq> FULL_STOP" and "\<not> isDigit c"
    and "\<not> (0x41 \<le> c \<and> c \<le> 0x5A) \<Longrightarrow> isLower c"
  using assms by (auto simp: class_defs)

lemma lower_class:
  assumes "isLower c"
  shows "isLetter c" and "\<not> (0x41 \<le> c \<and> c \<le> 0x5A)"
  using assms by (auto simp: class_defs)

lemma devanagariLetter_class:
  assumes "isDevanagariLetter c"
  shows "\<not> isWhiteSpace c" and "c \<noteq> FULL_STOP" and "\<not> isDevanagariDigit c"
    and "\<not> (0x41 \<le> c \<and> c \<le> 0x5A)"
  using assms by (auto simp: class_defs)

lemma full_stop_class:
  "\<not> isWhiteSpace FULL_STOP" "\<not> isDigit FULL_STOP" "\<not> isLetter FULL_STOP" "\<not> isLower FULL_STOP"
  "\<not> isDevanagariDigit FULL_STOP" "\<not> isDevanagariLetter FULL_STOP"
  by (simp_all add: class_defs)

subsection \<open>The patterns as sets of matches\<close>

text \<open>
  The patterns read as sets of matches. A match of the numeral pattern at the start of \<open>s\<close>
  is any way of cutting a prefix of \<open>s\<close> into an optional symbol, white space, digits, an
  optional letter, white space and the period. The function \<open>numeralPattern\<close> finds a match
  exactly when there is one, and there is never more than one, so the order in which a
  backtracking matcher tries the alternatives does not show.
\<close>

lemma space_run_then_stop:
  assumes "\<forall>c \<in> set ws. isWhiteSpace c" and "rest \<noteq> []" and "\<not> isWhiteSpace (hd rest)"
  shows "takeWhile isWhiteSpace (ws @ rest) = ws" and "dropWhile isWhiteSpace (ws @ rest) = rest"
  using assms by (cases rest; simp add: takeWhile_append2 dropWhile_append2)+

lemma numeralPattern_of_match:
  assumes sy: "sy = [] \<or> (\<exists>c. sy = [c] \<and> isAmendmentSymbol c)"
    and ws1: "\<forall>c \<in> set ws1. isWhiteSpace c"
    and ds: "ds \<noteq> []" "\<forall>c \<in> set ds. digit c"
    and lt: "lt = [] \<or> (\<exists>c. lt = [c] \<and> letter c)"
    and ws2: "\<forall>c \<in> set ws2. isWhiteSpace c"
    and dig: "\<And>c. digit c \<Longrightarrow> \<not> isAmendmentSymbol c \<and> \<not> isWhiteSpace c"
    and ltr: "\<And>c. letter c \<Longrightarrow> \<not> digit c \<and> \<not> isWhiteSpace c"
    and dot: "\<not> digit FULL_STOP" "\<not> letter FULL_STOP"
  shows "numeralPattern digit letter (sy @ ws1 @ ds @ lt @ ws2 @ FULL_STOP # rest) =
           Some (sy @ ws1 @ ds @ lt @ ws2 @ [FULL_STOP], ds @ lt)"
proof -
  let ?t4 = "ws2 @ FULL_STOP # rest"
  let ?t3 = "lt @ ?t4"
  let ?t2 = "ds @ ?t3"
  let ?t1 = "ws1 @ ?t2"
  have nd: "\<not> isWhiteSpace FULL_STOP" by (simp add: isWhiteSpace_def)
  from ds have hd_ds: "digit (hd ds)" by (cases ds) auto
  have sp_sym: "\<not> isAmendmentSymbol c" if "isWhiteSpace c" for c
    using that symbol_class(1) by blast
  have "?t1 \<noteq> []" using ds by simp
  moreover have "\<not> isAmendmentSymbol (hd ?t1)"
  proof (cases ws1)
    case Nil
    with ds hd_ds dig show ?thesis by simp
  next
    case (Cons w ws)
    with ws1 sp_sym show ?thesis by simp
  qed
  ultimately have o1: "optClass isAmendmentSymbol (sy @ ?t1) = (sy, ?t1)"
    using sy by (intro optClass_prefix) auto
  from ds hd_ds dig have "?t2 \<noteq> []" and "\<not> isWhiteSpace (hd ?t2)" by auto
  with ws1 have w1: "takeWhile isWhiteSpace ?t1 = ws1" and w1': "dropWhile isWhiteSpace ?t1 = ?t2"
    by (rule space_run_then_stop)+
  have "\<not> digit (hd ?t3)"
  proof (cases lt)
    case (Cons l ls)
    with lt ltr show ?thesis by auto
  next
    case Nil
    show ?thesis
    proof (cases ws2)
      case Nil
      with \<open>lt = []\<close> dot show ?thesis by simp
    next
      case (Cons w ws)
      with \<open>lt = []\<close> ws2 dig show ?thesis by auto
    qed
  qed
  then have "?t3 = [] \<or> \<not> digit (hd ?t3)" ..
  with ds(2) have d: "takeWhile digit ?t2 = ds" and d': "dropWhile digit ?t2 = ?t3"
    by (rule run_then_stop)+
  have "\<not> letter (hd ?t4)"
  proof (cases ws2)
    case Nil
    with dot show ?thesis by simp
  next
    case (Cons w ws)
    with ws2 ltr show ?thesis by auto
  qed
  with lt have o2: "optClass letter ?t3 = (lt, ?t4)"
    by (intro optClass_prefix) auto
  from ws2 nd have w2: "takeWhile isWhiteSpace ?t4 = ws2"
    and w2': "dropWhile isWhiteSpace ?t4 = FULL_STOP # rest"
    by (simp_all add: space_run_then_stop)
  show ?thesis
    unfolding numeralPattern_def o1 Let_def case_prod_conv w1 w1' d d' o2 w2 w2'
    using ds by simp
qed

lemma numeralPattern_iff_match:
  assumes dig: "\<And>c. digit c \<Longrightarrow> \<not> isAmendmentSymbol c \<and> \<not> isWhiteSpace c"
    and ltr: "\<And>c. letter c \<Longrightarrow> \<not> digit c \<and> \<not> isWhiteSpace c"
    and dot: "\<not> digit FULL_STOP" "\<not> letter FULL_STOP"
  shows "numeralPattern digit letter s = Some (m0, m1) \<longleftrightarrow>
           (\<exists>sy ws1 ds lt ws2 rest. s = m0 @ rest \<and>
              m0 = sy @ ws1 @ ds @ lt @ ws2 @ [FULL_STOP] \<and> m1 = ds @ lt \<and>
              (sy = [] \<or> (\<exists>c. sy = [c] \<and> isAmendmentSymbol c)) \<and>
              (\<forall>c \<in> set ws1. isWhiteSpace c) \<and>
              ds \<noteq> [] \<and> (\<forall>c \<in> set ds. digit c) \<and>
              (lt = [] \<or> (\<exists>c. lt = [c] \<and> letter c)) \<and>
              (\<forall>c \<in> set ws2. isWhiteSpace c))"
    (is "?L \<longleftrightarrow> ?R")
proof
  assume ?L
  then show ?R by (rule numeralPattern_shape)
next
  assume ?R
  then obtain sy ws1 ds lt ws2 rest where s: "s = m0 @ rest"
    and m0: "m0 = sy @ ws1 @ ds @ lt @ ws2 @ [FULL_STOP]" and m1: "m1 = ds @ lt"
    and sh: "sy = [] \<or> (\<exists>c. sy = [c] \<and> isAmendmentSymbol c)"
      "\<forall>c \<in> set ws1. isWhiteSpace c" "ds \<noteq> []" "\<forall>c \<in> set ds. digit c"
      "lt = [] \<or> (\<exists>c. lt = [c] \<and> letter c)" "\<forall>c \<in> set ws2. isWhiteSpace c"
    by blast
  from numeralPattern_of_match [OF sh dig ltr dot, of rest] s m0 m1 show ?L by simp
qed

lemma englishNumeralPattern_iff_match:
  "englishNumeralPattern s = Some (m0, m1) \<longleftrightarrow>
     (\<exists>sy ws1 ds lt ws2 rest. s = m0 @ rest \<and>
        m0 = sy @ ws1 @ ds @ lt @ ws2 @ [FULL_STOP] \<and> m1 = ds @ lt \<and>
        (sy = [] \<or> (\<exists>c. sy = [c] \<and> isAmendmentSymbol c)) \<and>
        (\<forall>c \<in> set ws1. isWhiteSpace c) \<and>
        ds \<noteq> [] \<and> (\<forall>c \<in> set ds. isDigit c) \<and>
        (lt = [] \<or> (\<exists>c. lt = [c] \<and> isLetter c)) \<and>
        (\<forall>c \<in> set ws2. isWhiteSpace c))"
  unfolding englishNumeralPattern_def
proof (rule numeralPattern_iff_match)
  show "\<not> isAmendmentSymbol c \<and> \<not> isWhiteSpace c" if "isDigit c" for c
    using digit_class(1,3) [OF that] by simp
  show "\<not> isDigit c \<and> \<not> isWhiteSpace c" if "isLetter c" for c
    using letter_class(1,3) [OF that] by simp
  show "\<not> isDigit FULL_STOP" and "\<not> isLetter FULL_STOP" by (rule full_stop_class)+
qed

lemma devanagariNumeralPattern_iff_match:
  "devanagariNumeralPattern s = Some (m0, m1) \<longleftrightarrow>
     (\<exists>sy ws1 ds lt ws2 rest. s = m0 @ rest \<and>
        m0 = sy @ ws1 @ ds @ lt @ ws2 @ [FULL_STOP] \<and> m1 = ds @ lt \<and>
        (sy = [] \<or> (\<exists>c. sy = [c] \<and> isAmendmentSymbol c)) \<and>
        (\<forall>c \<in> set ws1. isWhiteSpace c) \<and>
        ds \<noteq> [] \<and> (\<forall>c \<in> set ds. isDevanagariDigit c) \<and>
        (lt = [] \<or> (\<exists>c. lt = [c] \<and> isDevanagariLetter c)) \<and>
        (\<forall>c \<in> set ws2. isWhiteSpace c))"
  unfolding devanagariNumeralPattern_def
proof (rule numeralPattern_iff_match)
  show "\<not> isAmendmentSymbol c \<and> \<not> isWhiteSpace c" if "isDevanagariDigit c" for c
    using devanagariDigit_class(1,3) [OF that] by simp
  show "\<not> isDevanagariDigit c \<and> \<not> isWhiteSpace c" if "isDevanagariLetter c" for c
    using devanagariLetter_class(1,3) [OF that] by simp
  show "\<not> isDevanagariDigit FULL_STOP" and "\<not> isDevanagariLetter FULL_STOP"
    by (rule full_stop_class)+
qed

lemma subClausePattern_iff_match:
  "subClausePattern s \<longleftrightarrow>
     (\<exists>ws body rest. s = ws @ LPAREN # body @ RPAREN # rest \<and>
        (\<forall>c \<in> set ws. isWhiteSpace c) \<and> body \<noteq> [] \<and> (\<forall>c \<in> set body. isSubClauseChar c))"
    (is "?L \<longleftrightarrow> ?R")
proof
  assume ?L
  let ?ws = "takeWhile isWhiteSpace s"
  from \<open>?L\<close> obtain r where r: "dropWhile isWhiteSpace s = LPAREN # r"
    by (auto simp: subClausePattern_def split: list.splits)
  let ?body = "takeWhile isSubClauseChar r"
  from \<open>?L\<close> r obtain rest where b: "?body \<noteq> []" and d: "dropWhile isSubClauseChar r = RPAREN # rest"
    by (auto simp: subClausePattern_def split: list.splits)
  have "s = ?ws @ dropWhile isWhiteSpace s" and "r = ?body @ dropWhile isSubClauseChar r"
    by simp_all
  with r d have "s = ?ws @ LPAREN # ?body @ RPAREN # rest" by metis
  moreover have "\<forall>c \<in> set ?ws. isWhiteSpace c" and "\<forall>c \<in> set ?body. isSubClauseChar c"
    by (auto dest: set_takeWhileD)
  ultimately show ?R using b by blast
next
  assume ?R
  then obtain ws body rest where s: "s = ws @ LPAREN # body @ RPAREN # rest"
    and ws: "\<forall>c \<in> set ws. isWhiteSpace c" and b: "body \<noteq> []"
    and body: "\<forall>c \<in> set body. isSubClauseChar c" by blast
  have "\<not> isWhiteSpace LPAREN" and np: "\<not> isSubClauseChar RPAREN" by (simp_all add: class_defs)
  with ws have w: "dropWhile isWhiteSpace (ws @ LPAREN # body @ RPAREN # rest) = LPAREN # body @ RPAREN # rest"
    by (simp add: space_run_then_stop)
  from body np have t: "takeWhile isSubClauseChar (body @ RPAREN # rest) = body"
    and d: "dropWhile isSubClauseChar (body @ RPAREN # rest) = RPAREN # rest"
    by (simp_all add: run_then_stop)
  show ?L unfolding subClausePattern_def s w using b by (simp add: t d)
qed

lemma rowClausePattern_iff_match:
  assumes dig: "\<And>c. digit c \<Longrightarrow> \<not> isAmendmentSymbol c"
    and ltr: "\<And>c. letter c \<Longrightarrow> \<not> digit c"
    and dot: "\<not> digit FULL_STOP" "\<not> letter FULL_STOP"
  shows "rowClausePattern digit letter s \<longleftrightarrow>
           (\<exists>sy ds lt dt. s = sy @ ds @ lt @ dt \<and>
              (sy = [] \<or> (\<exists>c. sy = [c] \<and> isAmendmentSymbol c)) \<and>
              ds \<noteq> [] \<and> (\<forall>c \<in> set ds. digit c) \<and>
              (lt = [] \<or> (\<exists>c. lt = [c] \<and> letter c)) \<and>
              (dt = [] \<or> dt = [FULL_STOP]))"
    (is "?L \<longleftrightarrow> ?R")
proof
  assume ?L
  then show ?R by (rule rowClausePattern_shape)
next
  assume ?R
  then obtain sy ds lt dt where s: "s = sy @ ds @ lt @ dt"
    and sh: "sy = [] \<or> (\<exists>c. sy = [c] \<and> isAmendmentSymbol c)"
      "ds \<noteq> []" "\<forall>c \<in> set ds. digit c"
      "lt = [] \<or> (\<exists>c. lt = [c] \<and> letter c)" "dt = [] \<or> dt = [FULL_STOP]"
    by blast
  from shape_rowClausePattern [OF sh dig ltr dot] s show ?L by simp
qed

subsection \<open>Full matches\<close>

lemma detect_of_full_match:
  assumes body: "\<forall>c \<in> set body. \<not> isWhiteSpace c \<and> c \<noteq> FULL_STOP"
    and m: "englishNumeralPattern (body @ [FULL_STOP]) = Some (body @ [FULL_STOP], m1) \<or>
            devanagariNumeralPattern (body @ [FULL_STOP]) = Some (body @ [FULL_STOP], m1)"
  shows "\<exists>cl. detectClauseNumber (body @ [FULL_STOP]) = Some cl \<and>
              c_fullClause cl = body @ [FULL_STOP] \<and>
              getRemainder (body @ [FULL_STOP]) = None"
proof -
  let ?s = "body @ [FULL_STOP]"
  from body full_stop_class(1) have "\<forall>c \<in> set ?s. \<not> isWhiteSpace c" by simp
  then have ts: "trimStart ?s = ?s" and tr: "trim ?s = ?s" by (rule no_space_trim)+
  from m subClause_excludes_numerals [of ?s] have nsub: "\<not> subClausePattern ?s" by auto
  have "englishNumeralPattern ?s = Some (?s, m1) \<or>
        (englishNumeralPattern ?s = None \<and> devanagariNumeralPattern ?s = Some (?s, m1))"
    using m english_devanagari_exclusive [of ?s] by (cases "englishNumeralPattern ?s") auto
  then obtain cl where d: "detectClauseNumber ?s = Some cl" and f: "c_fullClause cl = ?s"
    using ts tr nsub by (auto simp: detectClauseNumber_def Let_def)
  from body have "FULL_STOP \<notin> set body" by auto
  then have "indexOf FULL_STOP (body @ FULL_STOP # []) = Some (length body)"
    by (rule indexOf_first)
  with d ts have "getRemainder ?s = None"
    by (simp add: getRemainder_def substringFrom_def trimStart_def)
  with d f show ?thesis by blast
qed


lemma row_english_matches:
  assumes "rowClausePattern isDigit isLower s"
  shows "\<exists>body m1. (s = body \<or> s = body @ [FULL_STOP]) \<and> body \<noteq> [] \<and>
           (\<forall>c \<in> set body. isAmendmentSymbol c \<or> isDigit c \<or> isLower c) \<and>
           englishNumeralPattern (body @ [FULL_STOP]) = Some (body @ [FULL_STOP], m1)"
  unfolding englishNumeralPattern_def
proof (rule rowClausePattern_matches [OF assms])
  show "\<not> isAmendmentSymbol c \<and> \<not> isWhiteSpace c" if "isDigit c" for c
    using digit_class(1,3) [OF that] by simp
  show "isLetter c" if "isLower c" for c using that by (simp add: isLetter_def)
  show "\<not> isDigit c" if "isLetter c" for c using letter_class(3) [OF that] .
  show "\<not> isDigit FULL_STOP" and "\<not> isLetter FULL_STOP" by (rule full_stop_class)+
qed

lemma row_devanagari_matches:
  assumes "rowClausePattern isDevanagariDigit isDevanagariLetter s"
  shows "\<exists>body m1. (s = body \<or> s = body @ [FULL_STOP]) \<and> body \<noteq> [] \<and>
           (\<forall>c \<in> set body. isAmendmentSymbol c \<or> isDevanagariDigit c \<or> isDevanagariLetter c) \<and>
           devanagariNumeralPattern (body @ [FULL_STOP]) = Some (body @ [FULL_STOP], m1)"
  unfolding devanagariNumeralPattern_def
proof (rule rowClausePattern_matches [OF assms])
  show "\<not> isAmendmentSymbol c \<and> \<not> isWhiteSpace c" if "isDevanagariDigit c" for c
    using devanagariDigit_class(1,3) [OF that] by simp
  show "isDevanagariLetter c" if "isDevanagariLetter c" for c using that .
  show "\<not> isDevanagariDigit c" if "isDevanagariLetter c" for c
    using devanagariLetter_class(3) [OF that] .
  show "\<not> isDevanagariDigit FULL_STOP" and "\<not> isDevanagariLetter FULL_STOP"
    by (rule full_stop_class)+
qed

lemma full_match_row_english:
  assumes "numeralPattern isDigit isLetter (body @ [FULL_STOP]) = Some (m0, m1)"
    and "trim m0 = body @ [FULL_STOP]"
    and "\<forall>c \<in> set body. \<not> isWhiteSpace c"
    and "\<forall>c \<in> set body. \<not> (0x41 \<le> c \<and> c \<le> 0x5A)"
    and "dt = [] \<or> dt = [FULL_STOP]"
  shows "rowClausePattern isDigit isLower (body @ dt)"
  using assms(1,2,3)
proof (rule full_match_rowClausePattern)
  show "isLower c" if "c \<in> set body" and "isLetter c" for c
    using that assms(4) letter_class(4) by blast
  show "\<not> isAmendmentSymbol c" if "isDigit c" for c using digit_class(3) [OF that] .
  show "\<not> isDigit c" if "isLower c" for c
    using letter_class(3) [OF lower_class(1) [OF that]] .
  show "\<not> isDigit FULL_STOP" and "\<not> isLower FULL_STOP" by (rule full_stop_class)+
  show "dt = [] \<or> dt = [FULL_STOP]" by (rule assms(5))
qed

lemma full_match_row_devanagari:
  assumes "numeralPattern isDevanagariDigit isDevanagariLetter (body @ [FULL_STOP]) = Some (m0, m1)"
    and "trim m0 = body @ [FULL_STOP]"
    and "\<forall>c \<in> set body. \<not> isWhiteSpace c"
    and "dt = [] \<or> dt = [FULL_STOP]"
  shows "rowClausePattern isDevanagariDigit isDevanagariLetter (body @ dt)"
  using assms(1,2,3)
proof (rule full_match_rowClausePattern)
  show "isDevanagariLetter c" if "c \<in> set body" and "isDevanagariLetter c" for c using that(2) .
  show "\<not> isAmendmentSymbol c" if "isDevanagariDigit c" for c
    using devanagariDigit_class(3) [OF that] .
  show "\<not> isDevanagariDigit c" if "isDevanagariLetter c" for c
    using devanagariLetter_class(3) [OF that] .
  show "\<not> isDevanagariDigit FULL_STOP" and "\<not> isDevanagariLetter FULL_STOP"
    by (rule full_stop_class)+
  show "dt = [] \<or> dt = [FULL_STOP]" by (rule assms(4))
qed

subsection \<open>The clause-number test of the row generator\<close>

lemma isClauseNumber_matched:
  assumes "isClauseNumber t"
  shows "\<exists>body. (trim t = body \<or> trim t = body @ [FULL_STOP]) \<and> body \<noteq> [] \<and>
           (\<forall>c \<in> set body. \<not> isWhiteSpace c \<and> c \<noteq> FULL_STOP \<and> \<not> (0x41 \<le> c \<and> c \<le> 0x5A)) \<and>
           (\<exists>cl. detectClauseNumber (body @ [FULL_STOP]) = Some cl \<and>
                 c_fullClause cl = body @ [FULL_STOP] \<and>
                 getRemainder (body @ [FULL_STOP]) = None)"
proof -
  let ?s = "trim t"
  from assms have "rowClausePattern isDigit isLower ?s \<or>
                   rowClausePattern isDevanagariDigit isDevanagariLetter ?s"
    by (auto simp: isClauseNumber_def Let_def split: if_splits)
  then obtain body m1 where s: "?s = body \<or> ?s = body @ [FULL_STOP]" and ne: "body \<noteq> []"
    and cls: "\<forall>c \<in> set body. isAmendmentSymbol c \<or> isDigit c \<or> isLower c \<or>
                            isDevanagariDigit c \<or> isDevanagariLetter c"
    and m: "englishNumeralPattern (body @ [FULL_STOP]) = Some (body @ [FULL_STOP], m1) \<or>
            devanagariNumeralPattern (body @ [FULL_STOP]) = Some (body @ [FULL_STOP], m1)"
    using row_english_matches [of ?s] row_devanagari_matches [of ?s] by blast
  have ok: "\<forall>c \<in> set body. \<not> isWhiteSpace c \<and> c \<noteq> FULL_STOP \<and> \<not> (0x41 \<le> c \<and> c \<le> 0x5A)"
  proof
    fix c assume "c \<in> set body"
    with cls consider "isAmendmentSymbol c" | "isDigit c" | "isLower c"
      | "isDevanagariDigit c" | "isDevanagariLetter c" by blast
    then show "\<not> isWhiteSpace c \<and> c \<noteq> FULL_STOP \<and> \<not> (0x41 \<le> c \<and> c \<le> 0x5A)"
    proof cases
      case 1 from symbol_class(1,2,5) [OF this] show ?thesis by simp
    next
      case 2 from digit_class(1,2,5) [OF this] show ?thesis by simp
    next
      case 3 from letter_class(1,2) [OF lower_class(1) [OF this]] lower_class(2) [OF this]
      show ?thesis by simp
    next
      case 4 from devanagariDigit_class(1,2,5) [OF this] show ?thesis by simp
    next
      case 5 from devanagariLetter_class(1,2,4) [OF this] show ?thesis by simp
    qed
  qed
  then have "\<forall>c \<in> set body. \<not> isWhiteSpace c \<and> c \<noteq> FULL_STOP" by blast
  from detect_of_full_match [OF this m] s ne ok show ?thesis by blast
qed

lemma matched_isClauseNumber:
  assumes s: "trim t = body @ dt" and dt: "dt = [] \<or> dt = [FULL_STOP]"
    and nws: "\<forall>c \<in> set body. \<not> isWhiteSpace c"
    and nup: "\<forall>c \<in> set body. \<not> (0x41 \<le> c \<and> c \<le> 0x5A)"
    and det: "detectClauseNumber (body @ [FULL_STOP]) = Some cl"
    and f: "c_fullClause cl = body @ [FULL_STOP]"
  shows "isClauseNumber t"
proof -
  from nws full_stop_class(1) have "\<forall>c \<in> set (body @ [FULL_STOP]). \<not> isWhiteSpace c" by simp
  then have ts: "trimStart (body @ [FULL_STOP]) = body @ [FULL_STOP]" by (rule no_space_trim)
  from det f ts
  have "(\<exists>m0 m1. numeralPattern isDigit isLetter (body @ [FULL_STOP]) = Some (m0, m1) \<and>
                  trim m0 = body @ [FULL_STOP]) \<or>
        (\<exists>m0 m1. numeralPattern isDevanagariDigit isDevanagariLetter (body @ [FULL_STOP])
                    = Some (m0, m1) \<and>
                  trim m0 = body @ [FULL_STOP])"
    unfolding detectClauseNumber_def Let_def englishNumeralPattern_def devanagariNumeralPattern_def
    by (auto split: if_splits option.splits)
  then have row: "rowClausePattern isDigit isLower (trim t) \<or>
                  rowClausePattern isDevanagariDigit isDevanagariLetter (trim t)"
    unfolding s using full_match_row_english [OF _ _ nws nup dt]
      full_match_row_devanagari [OF _ _ nws dt] by blast
  then have "trim t \<noteq> []" using rowClausePattern_Nil by auto
  moreover from this have "t \<noteq> []" by (auto simp: trim_def trimStart_def trimEnd_def)
  ultimately show ?thesis using row by (auto simp: isClauseNumber_def Let_def)
qed

lemma bare_number:
  assumes "t \<noteq> []" and "\<forall>c \<in> set t. isDigit c"
  shows "isClauseNumber t" and "detectClauseNumber t = None"
proof -
  from assms(2) digit_class(1) have nws: "\<forall>c \<in> set t. \<not> isWhiteSpace c" by blast
  then have tr: "trim t = t" and ts: "trimStart t = t" by (rule no_space_trim)+
  have "rowClausePattern isDigit isLower ([] @ t @ [] @ [])"
  proof (rule shape_rowClausePattern)
    show "\<not> isAmendmentSymbol c" if "isDigit c" for c using digit_class(3) [OF that] .
    show "\<not> isDigit c" if "isLower c" for c
      using letter_class(3) [OF lower_class(1) [OF that]] .
    show "\<not> isDigit FULL_STOP" and "\<not> isLower FULL_STOP" by (rule full_stop_class)+
  qed (use assms in simp_all)
  with assms(1) tr show "isClauseNumber t" by (simp add: isClauseNumber_def)
  have no: "numeralPattern digit letter t = None" for digit letter
  proof (cases "numeralPattern digit letter t")
    case None then show ?thesis .
  next
    case (Some m)
    obtain m0 m1 where "m = (m0, m1)" by (cases m)
    with Some numeralPattern_shape [of digit letter t m0 m1]
    obtain pre rest where "t = (pre @ [FULL_STOP]) @ rest" by (metis append.assoc)
    then have "FULL_STOP \<in> set t" by simp
    with assms(2) full_stop_class(2) show ?thesis by blast
  qed
  have "englishNumeralPattern t = None" and "devanagariNumeralPattern t = None"
    unfolding englishNumeralPattern_def devanagariNumeralPattern_def
    by (rule no)+
  with ts show "detectClauseNumber t = None" by (simp add: detectClauseNumber_def Let_def)
qed


subsection \<open>A carriage return at the end of a line\<close>

text \<open>
  A line that ends in a carriage return gives, once the rows are normalised, the rows of
  the line without it: the patterns look at a prefix of the line, and what is left of the
  carriage return is white space at the end of a row.
\<close>

lemma run_snoc_other:
  assumes "\<not> P w"
  shows "takeWhile P (xs @ [w]) = takeWhile P xs" and "dropWhile P (xs @ [w]) = dropWhile P xs @ [w]"
  using assms by (induction xs) auto

lemma space_run_snoc:
  assumes "isWhiteSpace w"
  shows "takeWhile isWhiteSpace (xs @ [w]) =
           (if dropWhile isWhiteSpace xs = [] then xs @ [w] else takeWhile isWhiteSpace xs)"
    and "dropWhile isWhiteSpace (xs @ [w]) =
           (if dropWhile isWhiteSpace xs = [] then [] else dropWhile isWhiteSpace xs @ [w])"
  using assms by (induction xs) auto

lemma optClass_snoc_other:
  assumes "\<not> P w"
  shows "optClass P (xs @ [w]) = (fst (optClass P xs), snd (optClass P xs) @ [w])"
  using assms by (cases xs) (auto simp: optClass_def)

lemma CR_class:
  "isWhiteSpace CR" "\<not> isAmendmentSymbol CR" "\<not> isDigit CR" "\<not> isLetter CR"
  "\<not> isDevanagariDigit CR" "\<not> isDevanagariLetter CR" "\<not> isSubClauseChar CR"
  by (simp_all add: class_defs)

lemma numeralPattern_snoc_CR:
  assumes "\<not> digit CR" and "\<not> letter CR"
  shows "numeralPattern digit letter (s @ [CR]) = numeralPattern digit letter s"
proof -
  obtain sy r1 where o1: "optClass isAmendmentSymbol s = (sy, r1)" by force
  then have o1': "optClass isAmendmentSymbol (s @ [CR]) = (sy, r1 @ [CR])"
    by (simp add: optClass_snoc_other CR_class)
  let ?r2 = "dropWhile isWhiteSpace r1"
  note sp = space_run_snoc [OF CR_class(1)]
  show ?thesis
  proof (cases "?r2 = []")
    case True
    have e: "dropWhile isWhiteSpace (r1 @ [CR]) = []" unfolding sp(2) [of r1] True by simp
    show ?thesis
      unfolding numeralPattern_def o1 o1' by (simp add: True e)
  next
    case r2: False
    have w1: "takeWhile isWhiteSpace (r1 @ [CR]) = takeWhile isWhiteSpace r1"
      and w1': "dropWhile isWhiteSpace (r1 @ [CR]) = ?r2 @ [CR]"
      unfolding sp [of r1] using r2 by (simp_all del: dropWhile_eq_Nil_conv)
    have d: "takeWhile digit (?r2 @ [CR]) = takeWhile digit ?r2"
      and d': "dropWhile digit (?r2 @ [CR]) = dropWhile digit ?r2 @ [CR]"
      by (simp_all add: run_snoc_other [where P = digit] assms(1))
    let ?r3 = "dropWhile digit ?r2"
    obtain lt r4 where o2: "optClass letter ?r3 = (lt, r4)" by force
    then have o2': "optClass letter (?r3 @ [CR]) = (lt, r4 @ [CR])"
      by (simp add: optClass_snoc_other assms)
    show ?thesis
    proof (cases "dropWhile isWhiteSpace r4")
      case Nil
      have e: "dropWhile isWhiteSpace (r4 @ [CR]) = []" unfolding sp(2) [of r4] Nil by simp
      show ?thesis
        unfolding numeralPattern_def o1 o1' Let_def case_prod_conv w1 w1' d d' o2 o2' Nil e
        by simp
    next
      case (Cons c rest)
      then have ne: "dropWhile isWhiteSpace r4 \<noteq> []" by simp
      have w2: "takeWhile isWhiteSpace (r4 @ [CR]) = takeWhile isWhiteSpace r4"
        and w2': "dropWhile isWhiteSpace (r4 @ [CR]) = c # (rest @ [CR])"
        unfolding sp [of r4] using ne Cons by (simp_all del: dropWhile_eq_Nil_conv)
      show ?thesis
        unfolding numeralPattern_def o1 o1' Let_def case_prod_conv w1 w1' d d' o2 o2' Cons w2 w2'
        by simp
    qed
  qed
qed

lemma subClausePattern_snoc_CR: "subClausePattern (s @ [CR]) = subClausePattern s"
proof (cases "dropWhile isWhiteSpace s")
  case Nil
  have "dropWhile isWhiteSpace (s @ [CR]) = []"
    unfolding space_run_snoc(2) [OF CR_class(1), of s] Nil by simp
  then show ?thesis unfolding subClausePattern_def Nil by simp
next
  case (Cons c r)
  then have ne: "dropWhile isWhiteSpace s \<noteq> []" by simp
  have w: "dropWhile isWhiteSpace (s @ [CR]) = c # (r @ [CR])"
    unfolding space_run_snoc(2) [OF CR_class(1), of s] using ne Cons
    by (simp del: dropWhile_eq_Nil_conv)
  have t: "takeWhile isSubClauseChar (r @ [CR]) = takeWhile isSubClauseChar r"
    and d: "dropWhile isSubClauseChar (r @ [CR]) = dropWhile isSubClauseChar r @ [CR]"
    by (simp_all add: run_snoc_other [where P = isSubClauseChar] CR_class(7))
  show ?thesis
  proof (cases "dropWhile isSubClauseChar r")
    case Nil
    show ?thesis unfolding subClausePattern_def w Cons by (simp add: t d Nil)
  next
    case inner: (Cons d' rest)
    show ?thesis unfolding subClausePattern_def w Cons by (simp add: t d inner)
  qed
qed

lemma trimStart_snoc_CR:
  "trimStart (s @ [CR]) = (if trimStart s = [] then [] else trimStart s @ [CR])"
  unfolding trimStart_def by (rule space_run_snoc(2) [OF CR_class(1)])

lemma trim_snoc_CR: "trim (s @ [CR]) = trim s"
proof (cases "trimStart s = []")
  case True
  show ?thesis unfolding trim_def trimStart_snoc_CR True by simp
next
  case False
  have "trimStart (s @ [CR]) = trimStart s @ [CR]"
    unfolding trimStart_snoc_CR using False by simp
  then show ?thesis unfolding trim_def trimEnd_def by (simp add: CR_class(1))
qed

lemma trim_Nil_iff: "trim s = [] \<longleftrightarrow> trimStart s = []"
proof
  assume "trim s = []"
  then have all: "\<forall>c \<in> set (dropWhile isWhiteSpace s). isWhiteSpace c"
    by (simp add: trim_def trimEnd_def trimStart_def)
  show "trimStart s = []"
  proof (rule ccontr)
    assume "trimStart s \<noteq> []"
    then have ne: "dropWhile isWhiteSpace s \<noteq> []" unfolding trimStart_def .
    from hd_dropWhile [OF ne] have "\<not> isWhiteSpace (hd (dropWhile isWhiteSpace s))" .
    moreover from ne have "hd (dropWhile isWhiteSpace s) \<in> set (dropWhile isWhiteSpace s)"
      by (rule hd_in_set)
    ultimately show False using all by blast
  qed
next
  assume "trimStart s = []"
  then show "trim s = []" by (simp add: trim_def trimEnd_def)
qed

lemma extractAmendmentSymbol_snoc_CR:
  "extractAmendmentSymbol (s @ [CR]) = extractAmendmentSymbol s"
proof (cases "trimStart s")
  case Nil
  then show ?thesis by (simp add: extractAmendmentSymbol_def trimStart_snoc_CR)
next
  case (Cons c r)
  then show ?thesis by (simp add: extractAmendmentSymbol_def trimStart_snoc_CR)
qed

lemma englishNumeralPattern_snoc_CR:
  "englishNumeralPattern (s @ [CR]) = englishNumeralPattern s"
  unfolding englishNumeralPattern_def
  by (rule numeralPattern_snoc_CR) (rule CR_class)+

lemma devanagariNumeralPattern_snoc_CR:
  "devanagariNumeralPattern (s @ [CR]) = devanagariNumeralPattern s"
  unfolding devanagariNumeralPattern_def
  by (rule numeralPattern_snoc_CR) (rule CR_class)+

lemma detectClauseNumber_snoc_CR: "detectClauseNumber (line @ [CR]) = detectClauseNumber line"
proof (cases "trimStart line = []")
  case True
  then have "trim line = []" by (simp add: trim_Nil_iff)
  then show ?thesis by (simp add: detectClauseNumber_def trim_snoc_CR)
next
  case False
  then have t: "trim line \<noteq> []" and l: "line \<noteq> []"
    by (auto simp: trim_Nil_iff trimStart_def)
  have ts: "trimStart (line @ [CR]) = trimStart line @ [CR]"
    using False by (simp add: trimStart_snoc_CR)
  have ex: "extractAmendmentSymbol (trimStart line @ [CR]) = extractAmendmentSymbol (trimStart line)"
    by (rule extractAmendmentSymbol_snoc_CR)
  show ?thesis
    unfolding detectClauseNumber_def Let_def ts trim_snoc_CR subClausePattern_snoc_CR ex
      englishNumeralPattern_snoc_CR devanagariNumeralPattern_snoc_CR
    using l by simp
qed

lemma indexOf_snoc_other: "w \<noteq> c \<Longrightarrow> indexOf c (xs @ [w]) = indexOf c xs"
  by (induction xs) auto

lemma indexOf_Some_less: "indexOf c xs = Some i \<Longrightarrow> i < length xs"
  by (induction xs arbitrary: i) (auto split: if_splits)

lemma detect_Some_trimStart:
  assumes "detectClauseNumber line = Some cl"
  shows "trimStart line \<noteq> []"
proof
  assume "trimStart line = []"
  then have "trim line = []" by (simp add: trim_Nil_iff)
  with assms show False by (simp add: detectClauseNumber_def)
qed

lemma getRemainder_snoc_CR:
  "getRemainder (line @ [CR]) = map_option (\<lambda>r. r @ [CR]) (getRemainder line)"
proof (cases "detectClauseNumber line")
  case None
  then show ?thesis by (simp add: getRemainder_def detectClauseNumber_snoc_CR)
next
  case (Some cl)
  from detect_Some_trimStart [OF this]
  have ts: "trimStart (line @ [CR]) = trimStart line @ [CR]"
    by (simp add: trimStart_snoc_CR)
  have ix: "indexOf FULL_STOP (trimStart line @ [CR]) = indexOf FULL_STOP (trimStart line)"
    by (simp add: indexOf_snoc_other)
  show ?thesis
  proof (cases "indexOf FULL_STOP (trimStart line)")
    case None
    with Some show ?thesis
      by (simp add: getRemainder_def detectClauseNumber_snoc_CR ts ix)
  next
    case (Some i)
    then have "i < length (trimStart line)" by (rule indexOf_Some_less)
    then have dr: "drop (Suc i) (trimStart line @ [CR]) = drop (Suc i) (trimStart line) @ [CR]"
      by simp
    from \<open>detectClauseNumber line = Some cl\<close> Some show ?thesis
      unfolding getRemainder_def detectClauseNumber_snoc_CR Let_def ts ix substringFrom_def
      by (simp add: dr trimStart_snoc_CR del: drop_append)
  qed
qed

lemma detectLeadingPhrase_snoc_CR:
  assumes "r \<noteq> []"
  shows "detectLeadingPhrase line' (Some (r @ [CR])) = detectLeadingPhrase line (Some r)"
proof (cases "indexOf COLON r")
  case None
  with assms show ?thesis by (simp add: detectLeadingPhrase_def indexOf_snoc_other)
next
  case (Some i)
  then have "i < length r" by (rule indexOf_Some_less)
  then have tk: "take i (r @ [CR]) = take i r"
    and dr: "drop (Suc i) (r @ [CR]) = drop (Suc i) r @ [CR]" by simp_all
  from assms Some show ?thesis
    unfolding detectLeadingPhrase_def substringTo_def substringFrom_def
    by (simp add: indexOf_snoc_other tk dr trim_snoc_CR Let_def del: drop_append take_append)
qed

lemma getLeadingPhrase_snoc_CR: "getLeadingPhrase (line @ [CR]) = getLeadingPhrase line"
proof (cases "getRemainder line")
  case None
  then show ?thesis
    by (simp add: getLeadingPhrase_def detectClauseNumber_snoc_CR getRemainder_snoc_CR
        split: option.splits)
next
  case (Some r)
  from getRemainder_not_Nil [OF this]
  have "detectLeadingPhrase (line @ [CR]) (Some (r @ [CR])) = detectLeadingPhrase line (Some r)"
    by (rule detectLeadingPhrase_snoc_CR)
  with Some show ?thesis
    by (simp add: getLeadingPhrase_def detectClauseNumber_snoc_CR getRemainder_snoc_CR
        split: option.splits)
qed

lemma getContentAfterPhrase_snoc_CR:
  "getContentAfterPhrase (line @ [CR]) = getContentAfterPhrase line"
proof (cases "getRemainder line")
  case None
  then show ?thesis
    by (simp add: getContentAfterPhrase_def detectClauseNumber_snoc_CR getRemainder_snoc_CR
        split: option.splits)
next
  case (Some r)
  from getRemainder_not_Nil [OF this]
  have "detectLeadingPhrase (line @ [CR]) (Some (r @ [CR])) = detectLeadingPhrase line (Some r)"
    by (rule detectLeadingPhrase_snoc_CR)
  with Some show ?thesis
    by (simp add: getContentAfterPhrase_def detectClauseNumber_snoc_CR getRemainder_snoc_CR
        split: option.splits)
qed

lemma normalizeRow_snoc_CR: "normalizeRow (Some (r @ [CR])) = normalizeRow (Some r)"
  by (simp add: normalizeRow_def trim_snoc_CR)

lemma splitLine_snoc_CR:
  "map normalizeRow (splitLine (line @ [CR])) = map normalizeRow (splitLine line)"
  unfolding splitLine_def detectClauseNumber_snoc_CR getLeadingPhrase_snoc_CR
    getContentAfterPhrase_snoc_CR getRemainder_snoc_CR getClauseNumberRow_def
  by (auto simp: normalizeRow_snoc_CR split: option.splits)

lemma split_lines_Cons:
  "split_lines (c # cs) =
     (if c = LF then [] # split_lines cs
      else (c # hd (split_lines cs)) # tl (split_lines cs))"
  using split_lines_not_Nil [of cs] by (cases "split_lines cs") auto

lemma split_lines_replaceCRLF:
  "list_all2 (\<lambda>l' l. l' = l \<or> l = l' @ [CR]) (split_lines (replaceCRLF s)) (split_lines s)"
proof (induction s rule: replaceCRLF.induct)
  case (1 c d cs)
  show ?case
  proof (cases "c = CR \<and> d = LF")
    case True
    with 1 show ?thesis by simp
  next
    case False
    with 1 have ih: "list_all2 (\<lambda>l' l. l' = l \<or> l = l' @ [CR])
                       (split_lines (replaceCRLF (d # cs))) (split_lines (d # cs))" by simp
    from False have r: "replaceCRLF (c # d # cs) = c # replaceCRLF (d # cs)" by auto
    obtain l' ls' where a: "split_lines (replaceCRLF (d # cs)) = l' # ls'"
      using split_lines_not_Nil [of "replaceCRLF (d # cs)"] unfolding neq_Nil_conv by blast
    obtain l ls where b: "split_lines (d # cs) = l # ls"
      using split_lines_not_Nil [of "d # cs"] unfolding neq_Nil_conv by blast
    from ih a b show ?thesis
      unfolding r split_lines_Cons [of c "replaceCRLF (d # cs)"] split_lines_Cons [of c "d # cs"]
      by auto
  qed
qed (simp_all add: list_all2_same del: split_lines.simps)

lemma rows_of_related_lines:
  assumes "list_all2 (\<lambda>l' l. l' = l \<or> l = l' @ [CR]) ls' ls"
  shows "map normalizeRow (concat (map splitLine ls')) = map normalizeRow (concat (map splitLine ls))"
  using assms
proof (induction rule: list_all2_induct)
  case Nil
  show ?case by simp
next
  case (Cons l' ls' l ls)
  from Cons.hyps(1) have "map normalizeRow (splitLine l') = map normalizeRow (splitLine l)"
    using splitLine_snoc_CR [of l'] by auto
  with Cons.IH show ?case by simp
qed

lemma replaceCRLF_Nil_iff: "replaceCRLF s = [] \<longleftrightarrow> s = []"
  by (induction s rule: replaceCRLF.induct) auto

lemma splitWithNormalization_replaceCRLF:
  "splitWithNormalization (JString (replaceCRLF s)) = splitWithNormalization (JString s)"
  using rows_of_related_lines [OF split_lines_replaceCRLF [of s]]
  by (simp add: splitWithNormalization_def splitText_def replaceCRLF_Nil_iff)

lemma replaceCR_id: "CR \<notin> set s \<Longrightarrow> replaceCR s = s"
  by (induction s) (auto simp: replaceCR_def)


lemma replaceCRLF_id: "CR \<notin> set s \<Longrightarrow> replaceCRLF s = s"
  by (induction s rule: replaceCRLF.induct) auto

lemma normalizeLineEndings_no_CR: "CR \<notin> set (normalizeLineEndings s)"
  by (auto simp: normalizeLineEndings_def replaceCR_def)

lemma normalizeLineEndings_cleanText: "normalizeLineEndings (cleanText s) = cleanText s"
proof -
  have "CR \<notin> set (cleanText s)"
    using normalizeLineEndings_no_CR by (simp add: cleanText_def Let_def)
  then show ?thesis by (simp add: normalizeLineEndings_def replaceCRLF_id replaceCR_id)
qed

subsection \<open>The amendment symbol in the row of the clause number\<close>

lemma trim_between_marks:
  assumes "\<not> isWhiteSpace a" and "\<not> isWhiteSpace b"
  shows "trim (a # xs @ [b]) = a # xs @ [b]"
  using assms by (simp add: trim_def trimStart_def trimEnd_def)

lemma numeralPattern_keeps_symbol:
  assumes "isAmendmentSymbol a" and "numeralPattern digit letter (a # r) = Some (m0, m1)"
  shows "\<exists>xs. m0 = a # xs @ [FULL_STOP]"
  using assms
  by (auto simp: numeralPattern_def optClass_def Let_def split: if_splits list.splits prod.splits)

text \<open>
  Whenever the matcher reports an amendment symbol, the matched clause already begins with
  it, and the row of the clause number begins with the symbol twice.
\<close>

lemma amendment_symbol_doubled:
  assumes det: "detectClauseNumber line = Some cl" and am: "c_amendment cl = Some a"
  shows "\<exists>rest. c_fullClause cl = a # rest \<and> getClauseNumberRow line = Some (a # a # rest)"
proof -
  let ?t = "trimStart line"
  from det have ne: "line \<noteq> []" "trim line \<noteq> []" "\<not> subClausePattern ?t"
    by (auto simp: detectClauseNumber_def Let_def split: if_splits)
  have "\<exists>m0 m1. c_fullClause cl = trim m0 \<and> c_amendment cl = extractAmendmentSymbol ?t \<and>
          (numeralPattern isDigit isLetter ?t = Some (m0, m1) \<or>
           numeralPattern isDevanagariDigit isDevanagariLetter ?t = Some (m0, m1))"
  proof (cases "englishNumeralPattern ?t")
    case None
    with det ne show ?thesis
      by (cases "devanagariNumeralPattern ?t")
         (auto simp: detectClauseNumber_def Let_def devanagariNumeralPattern_def)
  next
    case (Some m)
    with det ne show ?thesis
      by (cases m) (auto simp: detectClauseNumber_def Let_def englishNumeralPattern_def)
  qed
  then obtain m0 m1 where cl: "c_fullClause cl = trim m0"
      "c_amendment cl = extractAmendmentSymbol ?t"
    and m: "numeralPattern isDigit isLetter ?t = Some (m0, m1) \<or>
            numeralPattern isDevanagariDigit isDevanagariLetter ?t = Some (m0, m1)"
    by blast
  have "trimStart ?t = ?t" by (simp add: trimStart_def)
  with am cl(2) obtain r where t: "?t = a # r" and a: "isAmendmentSymbol a"
    by (auto simp: extractAmendmentSymbol_def isAmendmentSymbol_def split: list.splits if_splits)
  from m t numeralPattern_keeps_symbol [OF a] obtain xs where "m0 = a # xs @ [FULL_STOP]"
    by metis
  moreover have "\<not> isWhiteSpace a" using a by (rule symbol_class(1))
  ultimately have "trim m0 = a # xs @ [FULL_STOP]"
    using full_stop_class(1) by (simp add: trim_between_marks)
  with cl(1) det am show ?thesis by (simp add: getClauseNumberRow_def)
qed

section \<open>The amendment clause of the quick reference\<close>

text \<open>
  C1. The line \<^verbatim>\<open>*16a. New clause here.\<close> should give the rows \<^verbatim>\<open>*16a.\<close> and
  \<^verbatim>\<open>New clause here.\<close>, the first one a clause number and an amendment, with no
  character of the clause number duplicated. The program gives a first row with the
  asterisk twice: the matched text already starts with the symbol, and
  \<open>getClauseNumberRow\<close> puts the symbol in front of it once more (for every line with an
  amendment symbol, see \<open>amendment_symbol_doubled\<close>). The doubled symbol also makes the row
  fail the clause-number test of the row generator.
\<close>

theorem amendment_clause_row_doubles_symbol:
  "generateRowsFromText (JString (js ''*16a. New clause here.'')) =
     Inr [\<lparr> r_number = 1, r_text = js ''**16a.'', r_isEmpty = False, r_isClauseNumber = False,
             r_isLeadingPhrase = False, r_isAmendment = True, r_language = English,
             r_length = 6 \<rparr>,
          \<lparr> r_number = 2, r_text = js ''New clause here.'', r_isEmpty = False,
             r_isClauseNumber = False, r_isLeadingPhrase = False, r_isAmendment = False,
             r_language = English, r_length = 16 \<rparr>]"
  by (simp add: eval_defs)

section \<open>Invalid input\<close>

text \<open>
  C5. An input that is null, undefined or of any type other than string, and likewise the
  empty string, gives the empty row sequence: the result is \<open>Inr []\<close>, not an error.
\<close>

theorem invalid_input_gives_no_rows:
  assumes "typeof v \<noteq> TString \<or> v = JString []"
  shows "splitText v = [] \<and> generateRowsFromText v = Inr []"
  using assms
  by (cases v)
     (simp_all add: splitText_def generateRowsFromText_def generateRows_def
        splitWithNormalization_def)

theorem invalid_input_gives_no_rows_witness:
  "typeof JNull \<noteq> TString \<and> generateRowsFromText JNull = Inr [] \<and>
   generateRowsFromText JUndefined = Inr [] \<and> generateRowsFromText (JNumber 7) = Inr [] \<and>
   generateRowsFromText (JString []) = Inr []"
  using invalid_input_gives_no_rows [of JNull] invalid_input_gives_no_rows [of JUndefined]
    invalid_input_gives_no_rows [of "JNumber 7"] invalid_input_gives_no_rows [of "JString []"]
  by simp

section \<open>The collapse view\<close>

lemma renumberFrom_forget_number:
  "map (\<lambda>r. r\<lparr> r_number := 0 \<rparr>) (renumberFrom i rows) = map (\<lambda>r. r\<lparr> r_number := 0 \<rparr>) rows"
  by (induction rows arbitrary: i) simp_all

lemma renumberFrom_isEmpty:
  "r \<in> set (renumberFrom i rows) \<Longrightarrow> \<exists>r' \<in> set rows. r_isEmpty r = r_isEmpty r'"
  by (induction rows arbitrary: i) auto

lemma renumberFrom_length: "length (renumberFrom i rows) = length rows"
  by (induction rows arbitrary: i) simp_all

lemma renumberFrom_nth:
  "k < length rows \<Longrightarrow> r_number (renumberFrom i rows ! k) = i + k + 1"
  by (induction rows arbitrary: i k) (auto simp: nth_Cons split: nat.splits)

text \<open>
  C6. With \<open>collapseEmpty\<close> set, the view contains exactly the rows whose \<open>isEmpty\<close> flag
  is false, in their original order, under either numbering policy: up to the sequence
  number the view is the input filtered by the flag, and it holds no empty row. When the
  numbers are preserved the view is that filtered input itself: a subsequence of the
  input in which every non-empty row occurs as often as in the input and from which
  every empty row of the input is gone. When the rows are renumbered their numbers are
  1, 2, ... in order.
\<close>

theorem collapse_view_keeps_nonempty_rows:
  "map (\<lambda>r. r\<lparr> r_number := 0 \<rparr>) (getDisplayRows rows True renumber) =
     map (\<lambda>r. r\<lparr> r_number := 0 \<rparr>) (filter (\<lambda>r. \<not> r_isEmpty r) rows) \<and>
   (\<forall>r \<in> set (getDisplayRows rows True renumber). \<not> r_isEmpty r) \<and>
   getDisplayRows rows True False = filter (\<lambda>r. \<not> r_isEmpty r) rows \<and>
   subseq (getDisplayRows rows True False) rows \<and>
   (\<forall>r. \<not> r_isEmpty r \<longrightarrow> count_list (getDisplayRows rows True False) r = count_list rows r) \<and>
   (\<forall>r \<in> set rows. r_isEmpty r \<longrightarrow> r \<notin> set (getDisplayRows rows True False)) \<and>
   length (getDisplayRows rows True renumber) = length (filter (\<lambda>r. \<not> r_isEmpty r) rows) \<and>
   (\<forall>k < length (getDisplayRows rows True True).
      r_number (getDisplayRows rows True True ! k) = k + 1)"
proof (intro conjI)
  show "map (\<lambda>r. r\<lparr> r_number := 0 \<rparr>) (getDisplayRows rows True renumber) =
          map (\<lambda>r. r\<lparr> r_number := 0 \<rparr>) (filter (\<lambda>r. \<not> r_isEmpty r) rows)"
    by (simp add: getDisplayRows_def filterEmptyRows_def renumberFrom_forget_number)
  show "\<forall>r \<in> set (getDisplayRows rows True renumber). \<not> r_isEmpty r"
  proof
    fix r assume r: "r \<in> set (getDisplayRows rows True renumber)"
    show "\<not> r_isEmpty r"
    proof (cases renumber)
      case True
      with r have "r \<in> set (renumberFrom 0 (filter (\<lambda>r. \<not> r_isEmpty r) rows))"
        by (simp add: getDisplayRows_def filterEmptyRows_def)
      from renumberFrom_isEmpty [OF this] show ?thesis by auto
    next
      case False
      with r show ?thesis by (simp add: getDisplayRows_def filterEmptyRows_def)
    qed
  qed
  show "getDisplayRows rows True False = filter (\<lambda>r. \<not> r_isEmpty r) rows"
    by (simp add: getDisplayRows_def filterEmptyRows_def)
  show "subseq (getDisplayRows rows True False) rows"
    by (simp add: getDisplayRows_def filterEmptyRows_def)
  show "\<forall>r. \<not> r_isEmpty r \<longrightarrow> count_list (getDisplayRows rows True False) r = count_list rows r"
    unfolding getDisplayRows_def filterEmptyRows_def by (induction rows) auto
  show "\<forall>r \<in> set rows. r_isEmpty r \<longrightarrow> r \<notin> set (getDisplayRows rows True False)"
    by (simp add: getDisplayRows_def filterEmptyRows_def)
  show "length (getDisplayRows rows True renumber) =
          length (filter (\<lambda>r. \<not> r_isEmpty r) rows)"
    by (simp add: getDisplayRows_def filterEmptyRows_def renumberFrom_length)
  show "\<forall>k < length (getDisplayRows rows True True).
          r_number (getDisplayRows rows True True ! k) = k + 1"
    by (simp add: getDisplayRows_def filterEmptyRows_def renumberFrom_length renumberFrom_nth)
qed

theorem collapse_view_keeps_nonempty_rows_witness:
  "getDisplayRows [rowObj 0 (js ''a''), rowObj 1 [], rowObj 2 (js ''b'')] True False =
     [rowObj 0 (js ''a''), rowObj 2 (js ''b'')] \<and>
   getDisplayRows [rowObj 0 (js ''a''), rowObj 1 [], rowObj 2 (js ''b'')] True True =
     [rowObj 0 (js ''a''), (rowObj 2 (js ''b''))\<lparr> r_number := 2 \<rparr>] \<and>
   rowObj 1 [] \<in> set [rowObj 0 (js ''a''), rowObj 1 [], rowObj 2 (js ''b'')] \<and>
   r_isEmpty (rowObj 1 []) \<and>
   rowObj 1 [] \<notin> set (getDisplayRows [rowObj 0 (js ''a''), rowObj 1 [], rowObj 2 (js ''b'')]
                          True False) \<and>
   \<not> r_isEmpty (rowObj 0 (js ''a'')) \<and>
   count_list (getDisplayRows [rowObj 0 (js ''a''), rowObj 1 [], rowObj 2 (js ''b'')] True False)
     (rowObj 0 (js ''a'')) = 1 \<and>
   map r_number (getDisplayRows [rowObj 0 (js ''a''), rowObj 1 [], rowObj 2 (js ''b'')] True True) =
     [1, 2]"
  using collapse_view_keeps_nonempty_rows
    [of "[rowObj 0 (js ''a''), rowObj 1 [], rowObj 2 (js ''b'')]" True]
  by (simp add: getDisplayRows_def filterEmptyRows_def rowObj_def string_defs class_defs)

section \<open>The language of a row\<close>

text \<open>
  C8, as the claim states it, fails on the empty string: the classifier answers with a
  fifth tag there, which is the tag of every row that comes from an empty line.
\<close>

theorem detectLanguage_empty_counterexample:
  "detectLanguage [] \<notin> {Mixed, English, Devanagari, Other} \<and>
   generateRowsFromText (JString [0x61, LF, LF, 0x62]) =
     Inr [\<lparr> r_number = 1, r_text = [0x61], r_isEmpty = False, r_isClauseNumber = False,
             r_isLeadingPhrase = False, r_isAmendment = False, r_language = English,
             r_length = 1 \<rparr>,
          \<lparr> r_number = 2, r_text = [], r_isEmpty = True, r_isClauseNumber = False,
             r_isLeadingPhrase = False, r_isAmendment = False, r_language = Unknown,
             r_length = 0 \<rparr>,
          \<lparr> r_number = 3, r_text = [0x62], r_isEmpty = False, r_isClauseNumber = False,
             r_isLeadingPhrase = False, r_isAmendment = False, r_language = English,
             r_length = 1 \<rparr>]"
  by (simp add: eval_defs)

text \<open>
  C8, amended. The empty string is tagged \<open>Unknown\<close>. Every non-empty string gets one of
  the four tags: \<open>Mixed\<close> when it holds both a Latin letter and a character of the
  Devanagari block, \<open>English\<close> when only a Latin letter, \<open>Devanagari\<close> when only a
  Devanagari character, \<open>Other\<close> when neither.
\<close>

theorem detectLanguage_tags:
  "detectLanguage [] = Unknown \<and>
   (txt \<noteq> [] \<longrightarrow>
      detectLanguage txt \<in> {Mixed, English, Devanagari, Other} \<and>
      ((\<exists>c \<in> set txt. isLetter c) \<and> (\<exists>c \<in> set txt. isDevanagari c)
         \<longleftrightarrow> detectLanguage txt = Mixed) \<and>
      ((\<exists>c \<in> set txt. isLetter c) \<and> \<not> (\<exists>c \<in> set txt. isDevanagari c)
         \<longleftrightarrow> detectLanguage txt = English) \<and>
      (\<not> (\<exists>c \<in> set txt. isLetter c) \<and> (\<exists>c \<in> set txt. isDevanagari c)
         \<longleftrightarrow> detectLanguage txt = Devanagari) \<and>
      (\<not> (\<exists>c \<in> set txt. isLetter c) \<and> \<not> (\<exists>c \<in> set txt. isDevanagari c)
         \<longleftrightarrow> detectLanguage txt = Other))"
  by (auto simp: detectLanguage_def list_ex_iff)

theorem detectLanguage_tags_witness:
  "js ''a'' \<noteq> [] \<and> detectLanguage (js ''a'') = English \<and>
   detectLanguage [0x915] = Devanagari \<and> detectLanguage [0x61, 0x915] = Mixed \<and>
   detectLanguage (js ''16.'') = Other"
  using detectLanguage_tags [of "js ''a''"] detectLanguage_tags [of "[0x915]"]
    detectLanguage_tags [of "[0x61, 0x915]"] detectLanguage_tags [of "js ''16.''"]
  by (simp add: class_defs js_def)

section \<open>Rows per line\<close>

text \<open>
  C3, as the claim states it, fails on the empty string: it has one line (the empty one),
  and the guard of \<open>splitText\<close> gives it no row at all.
\<close>

theorem empty_string_fewer_rows_than_lines_counterexample:
  "length (splitText (JString [])) < length (split_lines [])"
  by (simp add: splitText_def)

text \<open>
  C3, amended. Every line yields between one and three segments, and for every non-empty
  string the number of segments, which is the number of rows the pipeline returns, is at
  least the number of lines.
\<close>

theorem every_line_yields_one_to_three_rows:
  assumes "s \<noteq> []"
  shows "(\<forall>line \<in> set (split_lines s).
            1 \<le> length (splitLine line) \<and> length (splitLine line) \<le> 3) \<and>
         length (split_lines s) \<le> length (splitText (JString s)) \<and>
         (\<exists>rows. generateRowsFromText (JString s) = Inr rows \<and>
                  length (split_lines s) \<le> length rows)"
proof -
  have a: "\<forall>line \<in> set (split_lines s).
             1 \<le> length (splitLine line) \<and> length (splitLine line) \<le> 3"
    using splitLine_length by blast
  then have b: "length (split_lines s) \<le> length (splitText (JString s))"
    using assms by (simp add: splitText_string length_concat_lower)
  from pipeline_total [of "JString s"] b a show ?thesis by auto
qed

theorem every_line_yields_one_to_three_rows_witness:
  "js ''5. Definitions: Content here.'' \<noteq> [] \<and>
   split_lines (js ''5. Definitions: Content here.'') = [js ''5. Definitions: Content here.''] \<and>
   length (splitLine (js ''5. Definitions: Content here.'')) = 3 \<and>
   length (split_lines (js ''5. Definitions: Content here.''))
     \<le> length (splitText (JString (js ''5. Definitions: Content here.'')))"
  using every_line_yields_one_to_three_rows [of "js ''5. Definitions: Content here.''"]
  by (simp add: eval_defs)

section \<open>Sub-clauses\<close>

text \<open>
  C4. A line that, after its leading white space, begins with an opening parenthesis, one
  or more letters, digits or Devanagari characters, and a closing parenthesis is no clause
  for the matcher, and the splitter emits the whole line, unchanged, as its only segment,
  whatever follows the closing parenthesis. (The normalisation pass that follows trims the
  segment and collapses runs of spaces, as it does with every segment.)
\<close>

theorem sub_clause_line_is_one_segment:
  assumes "trimStart line = LPAREN # body @ RPAREN # rest"
    and "body \<noteq> []"
    and "\<forall>c \<in> set body. isDigit c \<or> isLetter c \<or> isDevanagari c"
  shows "detectClauseNumber line = None \<and> splitLine line = [Some line] \<and>
         (LF \<notin> set line \<longrightarrow>
            splitText (JString line) = [Some line] \<and>
            splitWithNormalization (JString line) = [Some (collapseSpaces (trim line))])"
proof -
  have d: "detectClauseNumber line = None" using assms(1) by (rule paren_line_detect_None)
  then have l: "splitLine line = [Some line]" by (simp add: splitLine_def)
  from assms(1) have "line \<noteq> []" by (auto simp: trimStart_def)
  with d l show ?thesis
    by (simp add: splitText_def split_lines_single splitWithNormalization_def normalizeRow_def)
qed

theorem sub_clause_line_is_one_segment_witness:
  "trimStart (js '' (a) Terms: 5. see 2a.'') = LPAREN # js ''a'' @ RPAREN # js '' Terms: 5. see 2a.'' \<and>
   isSubClause (js '' (a) Terms: 5. see 2a.'') \<and>
   LF \<notin> set (js '' (a) Terms: 5. see 2a.'') \<and>
   detectClauseNumber (js '' (a) Terms: 5. see 2a.'') = None \<and>
   splitText (JString (js '' (a) Terms: 5. see 2a.'')) = [Some (js '' (a) Terms: 5. see 2a.'')]"
  using sub_clause_line_is_one_segment
    [of "js '' (a) Terms: 5. see 2a.''" "js ''a''" "js '' Terms: 5. see 2a.''"]
  by (simp add: js_def trimStart_def class_defs isSubClause_def subClausePattern_def)

section \<open>The shapes exclude one another\<close>

text \<open>
  C9. A line of the sub-clause shape gets no clause token from the matcher; indeed no text
  matches the sub-clause pattern and one of the two clause patterns. And no text matches
  both the English and the Devanagari clause pattern: at the place of the first digit the
  one wants an ASCII digit, the other a Devanagari digit.
\<close>

theorem shapes_mutually_exclusive:
  "(isSubClause line \<longrightarrow> detectClauseNumber line = None) \<and>
   (subClausePattern s \<longrightarrow> englishNumeralPattern s = None \<and> devanagariNumeralPattern s = None) \<and>
   \<not> (englishNumeralPattern s \<noteq> None \<and> devanagariNumeralPattern s \<noteq> None)"
proof (intro conjI impI)
  assume "isSubClause line"
  then show "detectClauseNumber line = None"
    by (simp add: isSubClause_def detectClauseNumber_def)
next
  assume "subClausePattern s"
  then show "englishNumeralPattern s = None" and "devanagariNumeralPattern s = None"
    using subClause_excludes_numerals by simp_all
next
  show "\<not> (englishNumeralPattern s \<noteq> None \<and> devanagariNumeralPattern s \<noteq> None)"
    by (rule english_devanagari_exclusive)
qed

theorem shapes_mutually_exclusive_witness:
  "isSubClause (js ''(1) 2. x'') \<and> detectClauseNumber (js ''(1) 2. x'') = None \<and>
   subClausePattern (js ''(1) 2. x'') \<and> englishNumeralPattern (js ''(1) 2. x'') = None \<and>
   englishNumeralPattern (js ''2. x'') \<noteq> None \<and> devanagariNumeralPattern (js ''2. x'') = None \<and>
   devanagariNumeralPattern [0x968, 0x2E] \<noteq> None \<and> englishNumeralPattern [0x968, 0x2E] = None"
  using shapes_mutually_exclusive [of "js ''(1) 2. x''" "js ''(1) 2. x''"]
    shapes_mutually_exclusive [of "js ''(1) 2. x''" "js ''2. x''"]
    shapes_mutually_exclusive [of "js ''(1) 2. x''" "[0x968, 0x2E]"]
  by (simp add: js_def class_defs trimStart_def optClass_def isSubClause_def subClausePattern_def
      englishNumeralPattern_def devanagariNumeralPattern_def numeralPattern_def)

section \<open>The row-count estimate\<close>

text \<open>
  C10. The estimate of \<open>analyzeSplitting\<close> is never below the number of rows the splitter
  produces, for any input value; so a document that \<open>isLargeDocument\<close> does not flag has
  at most 1000 rows.
\<close>

theorem estimate_never_undercounts:
  "length (splitText v) \<le> estimatedRows (analyzeSplitting v) \<and>
   (\<exists>rows. generateRowsFromText v = Inr rows \<and>
            length rows \<le> estimatedRows (analyzeSplitting v)) \<and>
   (\<not> isLargeDocument v \<longrightarrow> length (splitText v) \<le> 1000)"
proof -
  have a: "length (splitText v) \<le> estimatedRows (analyzeSplitting v)"
    by (rule estimatedRows_bound)
  have "falsy v \<Longrightarrow> splitText v = []" by (simp add: splitText_def)
  with a have "\<not> isLargeDocument v \<longrightarrow> length (splitText v) \<le> 1000"
    by (auto simp: isLargeDocument_def split: if_splits)
  with a pipeline_total [of v] show ?thesis by auto
qed

theorem estimate_never_undercounts_witness:
  "length (splitText (JString (js ''5. Definitions: Content here.''))) = 3 \<and>
   estimatedRows (analyzeSplitting (JString (js ''5. Definitions: Content here.''))) = 4 \<and>
   \<not> isLargeDocument (JString (js ''5. Definitions: Content here.'')) \<and>
   length (splitText (JString (js ''5. Definitions: Content here.''))) \<le> 1000"
  using estimate_never_undercounts [of "JString (js ''5. Definitions: Content here.'')"]
  by (simp add: eval_defs)

section \<open>The clause-number flag of a row\<close>

text \<open>
  C2, as the claim states it, fails: the row generator has a pattern of its own, in which
  the period is optional and which is not the matcher's. A row whose text is the bare
  number \<^verbatim>\<open>16\<close> is flagged as a clause number though the matcher rejects it; and the
  clause number \<^verbatim>\<open>5A.\<close>, which the matcher accepts in full, is not flagged.
\<close>

theorem bare_number_is_flagged_counterexample:
  "generateRowsFromText (JString (js ''16'')) =
     Inr [\<lparr> r_number = 1, r_text = js ''16'', r_isEmpty = False, r_isClauseNumber = True,
             r_isLeadingPhrase = False, r_isAmendment = False, r_language = Other,
             r_length = 2 \<rparr>] \<and>
   detectClauseNumber (js ''16'') = None \<and>
   getClauseNumberRow (js ''5A. Title'') = Some (js ''5A.'') \<and>
   getRemainder (js ''5A.'') = None \<and>
   \<not> isClauseNumber (js ''5A.'')"
  by (simp add: eval_defs)

text \<open>
  C2, amended. For a row whose trimmed text holds no white space and no upper-case ASCII
  letter, the flag is set exactly when the trimmed text, with the terminating period
  supplied where it is missing, is matched by the clause-number matcher in full and with
  no remainder. The period being optional, every row whose text is a non-empty sequence
  of ASCII digits is flagged, though the matcher finds no clause in it.
\<close>

theorem isClauseNumber_when_matched_with_period:
  "((\<forall>c \<in> set (trim t). \<not> isWhiteSpace c \<and> \<not> (0x41 \<le> c \<and> c \<le> 0x5A)) \<longrightarrow>
      (r_isClauseNumber (rowObj i t) \<longleftrightarrow>
        (\<exists>cl. detectClauseNumber
                 (if trim t \<noteq> [] \<and> last (trim t) = FULL_STOP then trim t
                  else trim t @ [FULL_STOP]) = Some cl \<and>
              c_fullClause cl =
                 (if trim t \<noteq> [] \<and> last (trim t) = FULL_STOP then trim t
                  else trim t @ [FULL_STOP]) \<and>
              getRemainder
                 (if trim t \<noteq> [] \<and> last (trim t) = FULL_STOP then trim t
                  else trim t @ [FULL_STOP]) = None))) \<and>
   (t \<noteq> [] \<and> (\<forall>c \<in> set t. isDigit c) \<longrightarrow>
      r_isClauseNumber (rowObj i t) \<and> detectClauseNumber t = None)"
proof (intro conjI impI iffI)
  let ?s = "trim t"
  let ?d = "if ?s \<noteq> [] \<and> last ?s = FULL_STOP then ?s else ?s @ [FULL_STOP]"
  assume "r_isClauseNumber (rowObj i t)"
  then have "isClauseNumber t" by (simp add: rowObj_def)
  from isClauseNumber_matched [OF this] obtain body cl
    where s: "?s = body \<or> ?s = body @ [FULL_STOP]" and ne: "body \<noteq> []"
      and ok: "\<forall>c \<in> set body. \<not> isWhiteSpace c \<and> c \<noteq> FULL_STOP \<and> \<not> (0x41 \<le> c \<and> c \<le> 0x5A)"
      and cl: "detectClauseNumber (body @ [FULL_STOP]) = Some cl"
        "c_fullClause cl = body @ [FULL_STOP]" "getRemainder (body @ [FULL_STOP]) = None"
    by blast
  from ok ne have "last body \<noteq> FULL_STOP" using last_in_set by blast
  with s ne have "?d = body @ [FULL_STOP]" by auto
  with cl show "\<exists>cl. detectClauseNumber ?d = Some cl \<and> c_fullClause cl = ?d \<and> getRemainder ?d = None"
    by simp
next
  let ?s = "trim t"
  let ?d = "if ?s \<noteq> [] \<and> last ?s = FULL_STOP then ?s else ?s @ [FULL_STOP]"
  assume a: "\<forall>c \<in> set ?s. \<not> isWhiteSpace c \<and> \<not> (0x41 \<le> c \<and> c \<le> 0x5A)"
    and "\<exists>cl. detectClauseNumber ?d = Some cl \<and> c_fullClause cl = ?d \<and> getRemainder ?d = None"
  then obtain cl where det: "detectClauseNumber ?d = Some cl" and f: "c_fullClause cl = ?d" by blast
  define body where "body = (if ?s \<noteq> [] \<and> last ?s = FULL_STOP then butlast ?s else ?s)"
  define dt where "dt = (if ?s \<noteq> [] \<and> last ?s = FULL_STOP then [FULL_STOP] else [])"
  have "?s = butlast ?s @ [FULL_STOP]" if "?s \<noteq> []" and "last ?s = FULL_STOP"
    using that by (metis append_butlast_last_id)
  then have s: "?s = body @ dt" and d: "?d = body @ [FULL_STOP]"
    and dt: "dt = [] \<or> dt = [FULL_STOP]"
    unfolding body_def dt_def by (simp_all split: if_splits)
  from a s have nws: "\<forall>c \<in> set body. \<not> isWhiteSpace c"
    and nup: "\<forall>c \<in> set body. \<not> (0x41 \<le> c \<and> c \<le> 0x5A)" by auto
  from det f have "detectClauseNumber (body @ [FULL_STOP]) = Some cl"
    and "c_fullClause cl = body @ [FULL_STOP]" unfolding d by simp_all
  from matched_isClauseNumber [OF s dt nws nup this]
  show "r_isClauseNumber (rowObj i t)" by (simp add: rowObj_def)
next
  assume "t \<noteq> [] \<and> (\<forall>c \<in> set t. isDigit c)"
  then show "r_isClauseNumber (rowObj i t)" and "detectClauseNumber t = None"
    using bare_number [of t] by (simp_all add: rowObj_def)
qed

theorem isClauseNumber_when_matched_with_period_witness:
  "r_isClauseNumber (rowObj 0 (js ''16'')) \<and> detectClauseNumber (js ''16'') = None \<and>
   (\<exists>cl. detectClauseNumber (js ''16.'') = Some cl \<and> c_fullClause cl = js ''16.'' \<and>
         getRemainder (js ''16.'') = None)"
  using isClauseNumber_when_matched_with_period [of "js ''16''" 0]
  by (simp add: string_defs class_defs) blast

section \<open>Line endings\<close>

text \<open>
  C7, as the claim states it, fails: the core splits at line feeds only, so a carriage
  return on its own is no line break for it. \<^verbatim>\<open>a\rb\<close> is one row; with the carriage
  return replaced by a line feed it is two.
\<close>

theorem lone_carriage_return_counterexample:
  "generateRowsFromText (JString [0x61, CR, 0x62]) \<noteq>
   generateRowsFromText (JString (normalizeLineEndings [0x61, CR, 0x62]))"
  by (simp add: eval_defs normalizeLineEndings_def replaceCR_def)

text \<open>
  C7, amended. The core does not normalise line endings; \<open>cleanText\<close> of the text
  extractor does, and text that went through it is unchanged by a second normalisation.
  The core's rows are nevertheless the same for a string and for the string with every
  \<^verbatim>\<open>\r\n\<close> replaced by \<^verbatim>\<open>\n\<close>; so for every string in which no carriage return is
  left once the \<^verbatim>\<open>\r\n\<close> pairs are replaced, the pipeline gives the same rows for the
  string and for the string with its line endings normalised.
\<close>

theorem crlf_line_endings_give_the_same_rows:
  "generateRowsFromText (JString (replaceCRLF s)) = generateRowsFromText (JString s) \<and>
   (CR \<notin> set (replaceCRLF s) \<longrightarrow>
      generateRowsFromText (JString (normalizeLineEndings s)) = generateRowsFromText (JString s)) \<and>
   generateRowsFromText (JString (normalizeLineEndings (cleanText s))) =
     generateRowsFromText (JString (cleanText s))"
  by (simp add: generateRowsFromText_def splitWithNormalization_replaceCRLF
      normalizeLineEndings_def [of s] replaceCR_id normalizeLineEndings_cleanText)

theorem crlf_line_endings_give_the_same_rows_witness:
  "CR \<notin> set (replaceCRLF (js ''5. Title: x'' @ [CR, LF] @ js ''(a) y'')) \<and>
   normalizeLineEndings (js ''5. Title: x'' @ [CR, LF] @ js ''(a) y'') =
     js ''5. Title: x'' @ [LF] @ js ''(a) y'' \<and>
   generateRowsFromText (JString (js ''5. Title: x'' @ [LF] @ js ''(a) y'')) =
     generateRowsFromText (JString (js ''5. Title: x'' @ [CR, LF] @ js ''(a) y''))"
  using crlf_line_endings_give_the_same_rows [of "js ''5. Title: x'' @ [CR, LF] @ js ''(a) y''"]
  by (simp add: js_def normalizeLineEndings_def replaceCR_def)

end
